theory Spec2Isabelle
  imports Main "HOL-Library.Word" "HOL-Library.Sublist"
begin

section \<open>JavaScript strings\<close>

text \<open>
  A JavaScript string is a sequence of 16-bit code units. The built-in string methods that
  \<^verbatim>\<open>parseAIResponse\<close> calls are modelled on lists of code units with the meaning the
  language standard gives them; indices are \<open>int\<close> because \<^verbatim>\<open>lastIndexOf\<close> answers
  \<open>-1\<close> when there is no occurrence.
\<close>

type_synonym jschar = "16 word"
type_synonym jsstring = "jschar list"

definition ascii :: "string \<Rightarrow> jsstring" where
  "ascii s = map of_char s"

text \<open>The code units \<^verbatim>\<open>String.prototype.trim\<close> strips: WhiteSpace and LineTerminator.\<close>

definition isWhiteSpace :: "jschar \<Rightarrow> bool" where
  "isWhiteSpace c =
     (c \<in> set [0x09, 0x0A, 0x0B, 0x0C, 0x0D, 0x20, 0xA0, 0x1680,
                0x2000, 0x2001, 0x2002, 0x2003, 0x2004, 0x2005, 0x2006, 0x2007,
                0x2008, 0x2009, 0x200A, 0x2028, 0x2029, 0x202F, 0x205F, 0x3000, 0xFEFF])"

definition js_trim :: "jsstring \<Rightarrow> jsstring" where
  "js_trim s = rev (dropWhile isWhiteSpace (rev (dropWhile isWhiteSpace s)))"

text \<open>\<^verbatim>\<open>s.includes(pat)\<close>: \<open>pat\<close> occurs in \<open>s\<close> as a contiguous block.\<close>

definition js_includes :: "'a list \<Rightarrow> 'a list \<Rightarrow> bool" where
  "js_includes s pat = sublist pat s"

text \<open>
  \<^verbatim>\<open>s.lastIndexOf(pat)\<close>: the greatest index at which \<open>pat\<close> starts in \<open>s\<close>, or \<open>-1\<close>.
  The last occurrence in \<open>x # xs\<close> is the last one in \<open>xs\<close>, shifted by one, when there is
  one, and otherwise the occurrence at index 0 if \<open>pat\<close> is a prefix.
\<close>

fun js_lastIndexOf :: "'a list \<Rightarrow> 'a list \<Rightarrow> int" where
  "js_lastIndexOf [] pat = (if pat = [] then 0 else - 1)"
| "js_lastIndexOf (x # xs) pat =
     (let r = js_lastIndexOf xs pat
      in if r \<noteq> - 1 then r + 1 else if prefix pat (x # xs) then 0 else - 1)"

definition js_endsWith :: "'a list \<Rightarrow> 'a list \<Rightarrow> bool" where
  "js_endsWith s pat = suffix pat s"

text \<open>
  \<^verbatim>\<open>s.substring(a, b)\<close>: both indices are clamped to \<open>[0, length s]\<close> and swapped when
  the first is the greater.
\<close>

definition js_substring :: "'a list \<Rightarrow> int \<Rightarrow> int \<Rightarrow> 'a list" where
  "js_substring s a b =
     (let n = int (length s);
          a' = min (max a 0) n;
          b' = min (max b 0) n;
          lo = min a' b';
          hi = max a' b'
      in take (nat (hi - lo)) (drop (nat lo) s))"

subsection \<open>The escaped regular expression\<close>

text \<open>
  The completion tag is removed with
  \<^verbatim>\<open>spokenText.replace(new RegExp(TAG.replace(/[.*+?^${}()|[\]\\]/g, '\\$&'), 'g'), "")\<close>.
  \<open>escapeRegExp\<close> is the inner \<^verbatim>\<open>replace\<close>: every code unit of the character class gets
  a backslash in front. \<open>regexLiteral\<close> reads a regular-expression source made of plain
  code units and backslash-escaped special ones as the literal it matches; a source with
  an unescaped special code unit is a pattern and is outside this fragment (\<open>None\<close>).
\<close>

definition backslash :: jschar where
  "backslash = 0x5C"

definition regexSpecial :: "jschar list" where
  "regexSpecial = ascii ''.*+?^${}()|[]'' @ [backslash]"

definition escapeRegExp :: "jsstring \<Rightarrow> jsstring" where
  "escapeRegExp s = concat (map (\<lambda>c. if c \<in> set regexSpecial then [backslash, c] else [c]) s)"

fun regexLiteral :: "jsstring \<Rightarrow> jsstring option" where
  "regexLiteral [] = Some []"
| "regexLiteral [c] = (if c \<in> set regexSpecial then None else Some [c])"
| "regexLiteral (c # d # ds) =
     (if c = backslash then
        (if d \<in> set regexSpecial then map_option (Cons d) (regexLiteral ds) else None)
      else if c \<in> set regexSpecial then None
      else map_option (Cons c) (regexLiteral (d # ds)))"

text \<open>
  A global replace of a literal: the text is scanned from the left, every match is
  replaced and the scan goes on behind it. (The empty literal matches before every code
  unit and at the end.)
\<close>

fun replaceAllLiteral :: "'a list \<Rightarrow> 'a list \<Rightarrow> 'a list \<Rightarrow> 'a list" where
  "replaceAllLiteral pat rep [] = (if pat = [] then rep else [])"
| "replaceAllLiteral pat rep (x # xs) =
     (if pat = [] then rep @ x # replaceAllLiteral pat rep xs
      else if prefix pat (x # xs)
      then rep @ replaceAllLiteral pat rep (drop (length pat) (x # xs))
      else x # replaceAllLiteral pat rep xs)"

section \<open>Constants (constants.ts)\<close>

definition NOTEPAD_UPDATE_TAG_START :: jsstring where
  "NOTEPAD_UPDATE_TAG_START = ascii ''<notepad_update>''"

definition NOTEPAD_UPDATE_TAG_END :: jsstring where
  "NOTEPAD_UPDATE_TAG_END = ascii ''</notepad_update>''"

definition DISCUSSION_COMPLETE_TAG :: jsstring where
  "DISCUSSION_COMPLETE_TAG = ascii ''<discussion_complete />''"

definition MAX_AUTO_RETRIES :: nat where
  "MAX_AUTO_RETRIES = 2"

section \<open>The response parser (parseAIResponse)\<close>

record ParsedAIResponse =
  spokenText :: jsstring
  newNotepadContent :: "jsstring option"
  discussionShouldEnd :: bool

text \<open>
  The fixed wording of the placeholders, as code units:
  \<open>notepadActionWording\<close> is U+66F4 U+65B0 U+4E86 U+8BB0 U+4E8B U+672C ("updated the notepad"),
  \<open>discussionActionWording\<close> is U+5EFA U+8BAE U+7ED3 U+675F U+8BA8 U+8BBA ("suggests ending the
  discussion"), \<open>andWording\<close> is U+5E76 ("and"), and \<open>noTextWording\<close> is
  U+672A U+63D0 U+4F9B U+989D U+5916 U+6587 U+672C U+56DE U+590D ("gave no additional text
  reply").
\<close>

definition notepadActionWording :: jsstring where
  "notepadActionWording = [0x66F4, 0x65B0, 0x4E86, 0x8BB0, 0x4E8B, 0x672C]"

definition discussionActionWording :: jsstring where
  "discussionActionWording = [0x5EFA, 0x8BAE, 0x7ED3, 0x675F, 0x8BA8, 0x8BBA]"

definition andWording :: jsstring where
  "andWording = [0x5E76]"

definition noTextWording :: jsstring where
  "noTextWording = [0x672A, 0x63D0, 0x4F9B, 0x989D, 0x5916, 0x6587, 0x672C, 0x56DE, 0x590D]"

text \<open>
  Lines 55 to 75: the notepad block. The result is the spoken text and the notepad
  content as they stand before the completion tag is looked for.
\<close>

definition hasNotepadBlock :: "jsstring \<Rightarrow> bool" where
  "hasNotepadBlock currentText =
     (let notepadStartIndex = js_lastIndexOf currentText NOTEPAD_UPDATE_TAG_START;
          notepadEndIndex = js_lastIndexOf currentText NOTEPAD_UPDATE_TAG_END
      in notepadStartIndex \<noteq> - 1 \<and> notepadEndIndex \<noteq> - 1 \<and>
         notepadEndIndex > notepadStartIndex \<and>
         js_endsWith currentText NOTEPAD_UPDATE_TAG_END)"

definition splitNotepadBlock :: "jsstring \<Rightarrow> jsstring \<times> jsstring option" where
  "splitNotepadBlock currentText =
     (let notepadStartIndex = js_lastIndexOf currentText NOTEPAD_UPDATE_TAG_START;
          notepadEndIndex = js_lastIndexOf currentText NOTEPAD_UPDATE_TAG_END
      in if hasNotepadBlock currentText
         then (js_trim (js_substring currentText 0 notepadStartIndex),
               Some (js_trim (js_substring currentText
                   (notepadStartIndex + int (length NOTEPAD_UPDATE_TAG_START)) notepadEndIndex)))
         else (currentText, None))"

text \<open>
  Line 79: the global replace of the escaped tag by the empty string. The escaped source
  always reads back as a literal (lemma \<open>regexLiteral_escapeRegExp\<close> below), so the last
  branch is never taken.
\<close>

definition removeCompletionTag :: "jsstring \<Rightarrow> jsstring" where
  "removeCompletionTag s =
     (case regexLiteral (escapeRegExp DISCUSSION_COMPLETE_TAG) of
        Some lit \<Rightarrow> replaceAllLiteral lit [] s
      | None \<Rightarrow> s)"

text \<open>
  Lines 83 to 93: the placeholders. An action text is a string that is empty when the
  action did not happen; JavaScript reads a string as a condition by its being non-empty.
\<close>

definition placeholderText :: "jsstring \<Rightarrow> jsstring option \<Rightarrow> bool \<Rightarrow> jsstring" where
  "placeholderText spoken newNotepad shouldEnd =
     (let notepadActionText =
            (case newNotepad of
               Some content \<Rightarrow> (if content \<noteq> [] then notepadActionWording else [])
             | None \<Rightarrow> []);
          discussionActionText = (if shouldEnd then discussionActionWording else [])
      in if js_trim spoken = [] \<and> (notepadActionText \<noteq> [] \<or> discussionActionText \<noteq> [])
         then (if notepadActionText \<noteq> [] \<and> discussionActionText \<noteq> []
               then ascii ''(AI '' @ notepadActionText @ andWording @ discussionActionText @ ascii '')''
               else if notepadActionText \<noteq> []
               then ascii ''(AI '' @ notepadActionText @ ascii '')''
               else ascii ''(AI '' @ discussionActionText @ ascii '')'')
         else if js_trim spoken = [] \<and> newNotepad = None \<and> \<not> shouldEnd
         then ascii ''(AI '' @ noTextWording @ ascii '')''
         else spoken)"

definition parseAIResponse :: "jsstring \<Rightarrow> ParsedAIResponse" where
  "parseAIResponse responseText =
     (let currentText = js_trim responseText;
          (spoken1, newNotepad) = splitNotepadBlock currentText;
          shouldEnd = js_includes spoken1 DISCUSSION_COMPLETE_TAG;
          spoken2 = (if shouldEnd then js_trim (removeCompletionTag spoken1) else spoken1);
          spoken3 = placeholderText spoken2 newNotepad shouldEnd
      in \<lparr> spokenText = js_trim spoken3,
           newNotepadContent = newNotepad,
           discussionShouldEnd = shouldEnd \<rparr>)"

section \<open>Specification-side notions for the parser\<close>

text \<open>
  Position \<open>j\<close> of \<open>s\<close> lies inside an occurrence of \<open>pat\<close> when some occurrence
  starts at an \<open>i \<le> j\<close> and reaches past \<open>j\<close>. \<open>deleteOccurrences\<close> keeps exactly the
  code units that lie in no occurrence: this is what removing every literal occurrence
  means, said without a scan order.
\<close>

definition inOccurrence :: "'a list \<Rightarrow> 'a list \<Rightarrow> nat \<Rightarrow> bool" where
  "inOccurrence pat s j = (\<exists>i\<in>{..j}. j < i + length pat \<and> prefix pat (drop i s))"

definition deleteOccurrences :: "'a list \<Rightarrow> 'a list \<Rightarrow> 'a list" where
  "deleteOccurrences pat s =
     map fst (filter (\<lambda>p. \<not> inOccurrence pat s (snd p)) (zip s [0..<length s]))"

text \<open>
  The text in front of the last start marker, and the text between the end of the last
  start marker and the last end marker, of a trimmed response.
\<close>

definition textBeforeBlock :: "jsstring \<Rightarrow> jsstring" where
  "textBeforeBlock cur = take (nat (js_lastIndexOf cur NOTEPAD_UPDATE_TAG_START)) cur"

definition textInsideBlock :: "jsstring \<Rightarrow> jsstring" where
  "textInsideBlock cur =
     (let from = nat (js_lastIndexOf cur NOTEPAD_UPDATE_TAG_START) + length NOTEPAD_UPDATE_TAG_START;
          to = nat (js_lastIndexOf cur NOTEPAD_UPDATE_TAG_END)
      in take (to - from) (drop from cur))"

section \<open>The data of the orchestrator (App.tsx)\<close>

text \<open>
  Modelled from the spec: the enumerations \<^verbatim>\<open>MessageSender\<close> and \<^verbatim>\<open>MessagePurpose\<close> are
  declared in \<^verbatim>\<open>types.ts\<close>, which is not among the sources. Their members are the ones
  App.tsx names; the specification lists the senders as User, Logical (Cognito), Creative
  (Muse) and System.
\<close>

datatype MessageSender = User | Cognito | Muse | System

datatype MessagePurpose =
  UserInput | SystemNotification | CognitoToMuse | MuseToCognito | FinalResponse

datatype DiscussionMode = FixedTurns | AiDriven

text \<open>
  The step identifiers are the strings \<^verbatim>\<open>cognito-initial-to-muse\<close>,
  \<^verbatim>\<open>muse-reply-to-cognito-turn-N\<close>, \<^verbatim>\<open>cognito-reply-to-muse-turn-N\<close> and
  \<^verbatim>\<open>cognito-final-answer\<close>; the resume logic tells them apart by equality and by prefix.
\<close>

datatype StepId = CognitoInitial | MuseReply nat | CognitoReply nat | FinalAnswer

datatype SystemInstruction = COGNITO_SYSTEM_PROMPT_HEADER | MUSE_SYSTEM_PROMPT_HEADER

type_synonym ImagePart = "jsstring \<times> jsstring"

type_synonym DiscussionLog = "(MessageSender \<times> jsstring) list"

text \<open>
  A prompt is a template filled with values. The model keeps the template and the values
  and leaves the rendering to a string aside: which of the four templates it is, the user's
  query, whether the note about an image is included, the discussion log, the quoted last
  turn, the notepad content put into the notepad instructions, whether the instruction of
  the AI-driven mode is appended, and whether the sentence that the partner has proposed to
  end the discussion is appended.
\<close>

record Prompt =
  promptTemplate :: StepId
  promptUserInput :: jsstring
  promptImageNote :: bool
  promptLog :: DiscussionLog
  promptLastTurn :: jsstring
  promptNotepad :: jsstring
  promptAiDrivenPart :: bool
  promptPartnerProposedEnd :: bool

record FailedStepPayload =
  stepIdentifier :: StepId
  prompt :: Prompt
  modelName :: jsstring
  systemInstruction :: SystemInstruction
  imageApiPart :: "ImagePart option"
  sender :: MessageSender
  purpose :: MessagePurpose
  originalSystemErrorMsgId :: nat
  thinkingConfig :: "nat option"
  userInputForFlow :: jsstring
  imageApiPartForFlow :: "ImagePart option"
  discussionLogBeforeFailure :: DiscussionLog
  currentTurnIndexForResume :: "nat option"
  previousAISignaledStopForResume :: "bool option"

text \<open>
  The text of a chat message. A system notification is kept as the template it was made
  from, with the values put into it; the fixed wording (and the sender names of
  \<^verbatim>\<open>types.ts\<close>) is not modelled. The first argument of the two call-failure notices tells
  the label of the resumed flow from that of the first flow.
\<close>

datatype Notice =
    Preparing StepId
  | CallFailedRetrying bool StepId nat jsstring
  | CallFailedFinal bool StepId jsstring
  | SuggestsEnd MessageSender
  | BothAgreed MessageSender MessageSender
  | UserStopped
  | ErrorNotice jsstring
  | KeyErrorDisplay jsstring
  | ManualRetrying MessageSender StepId
  | ManualRetrySucceeded MessageSender StepId
  | ManualRetryFailed MessageSender StepId jsstring
  | ManualRetryStopped

datatype MessageText = UserText jsstring | Spoken jsstring | Note Notice

record ChatMessage =
  msgId :: nat
  msgText :: MessageText
  msgSender :: MessageSender
  msgPurpose :: MessagePurpose
  msgDurationMs :: "nat option"

text \<open>
  The state of the component. \<open>cancelRequest\<close> is \<^verbatim>\<open>cancelRequestRef.current\<close>. Two fields
  are instrumentation: \<open>nextMessageId\<close> supplies the identifiers of \<^verbatim>\<open>generateUniqueId\<close>
  (taken to be fresh), and \<open>calls\<close> records every invocation of \<^verbatim>\<open>generateResponse\<close> with
  the step it was made for. Timers and object URLs are left out.
\<close>

record AppState =
  messages :: "ChatMessage list"
  isLoading :: bool
  isApiKeyMissing :: bool
  notepadContent :: jsstring
  lastNotepadUpdateBy :: "MessageSender option"
  discussionLog :: DiscussionLog
  selectedModelApiName :: jsstring
  discussionMode :: DiscussionMode
  manualFixedTurns :: int
  isThinkingBudgetActive :: bool
  failedStepInfo :: "FailedStepPayload option"
  cancelRequest :: bool
  nextMessageId :: nat
  calls :: "(StepId \<times> Prompt) list"

text \<open>
  Modelled from the spec: \<^verbatim>\<open>generateResponse\<close> of \<^verbatim>\<open>services/geminiService\<close> is not among
  the sources. It answers with a text, an optional error message and a duration; an
  authentication failure is recognised by a substring of the error message. What the
  service answers is an input of the model: for every step the list of answers to its
  successive attempts, each with whether the user pressed Stop while the call was in flight
  and whether they did during the delay before the next attempt. A step that has no answer
  left stays suspended in its call.
\<close>

record ApiResult =
  resultText :: jsstring
  resultError :: "jsstring option"
  resultDurationMs :: nat

record AttemptEnv =
  apiResult :: ApiResult
  stopDuringCall :: bool
  stopDuringDelay :: bool

type_synonym StepEnv = "AttemptEnv list"

definition nextEnv :: "StepEnv list \<Rightarrow> StepEnv" where
  "nextEnv script = (case script of [] \<Rightarrow> [] | e # _ \<Rightarrow> e)"

definition API_KEY_NOT_VALID :: jsstring where
  "API_KEY_NOT_VALID = ascii ''API key not valid''"

definition GEMINI_PRO_MODEL_ID :: jsstring where
  "GEMINI_PRO_MODEL_ID = ascii ''gemini-2.5-pro''"

text \<open>
  Every entry of \<^verbatim>\<open>MODELS\<close> supports a thinking budget, and so does the fallback entry
  taken for an unknown model name; the budget is 32768 for the Pro model and 24576 otherwise.
\<close>

definition activeThinkingConfig :: "AppState \<Rightarrow> nat option" where
  "activeThinkingConfig s =
     (if isThinkingBudgetActive s
      then Some (if selectedModelApiName s = GEMINI_PRO_MODEL_ID then 32768 else 24576)
      else None)"

definition addMessage ::
  "MessageText \<Rightarrow> MessageSender \<Rightarrow> MessagePurpose \<Rightarrow> nat option \<Rightarrow> AppState \<Rightarrow> nat \<times> AppState" where
  "addMessage t who why dur s =
     (nextMessageId s,
      s\<lparr> messages := messages s @
            [\<lparr> msgId = nextMessageId s, msgText = t, msgSender = who, msgPurpose = why,
               msgDurationMs = dur \<rparr>],
         nextMessageId := Suc (nextMessageId s) \<rparr>)"

definition notify :: "Notice \<Rightarrow> AppState \<Rightarrow> AppState" where
  "notify n s = snd (addMessage (Note n) System SystemNotification None s)"

definition issueCall :: "FailedStepPayload \<Rightarrow> AppState \<Rightarrow> AppState" where
  "issueCall p s = s\<lparr> calls := calls s @ [(stepIdentifier p, prompt p)] \<rparr>"

definition applyNotepad :: "ParsedAIResponse \<Rightarrow> MessageSender \<Rightarrow> AppState \<Rightarrow> AppState" where
  "applyNotepad parsed who s =
     (case newNotepadContent parsed of
        None \<Rightarrow> s
      | Some content \<Rightarrow> s\<lparr> notepadContent := content, lastNotepadUpdateBy := Some who \<rparr>)"

section \<open>One step: the call with its automatic retries\<close>

text \<open>
  The values a query keeps for all its steps: the user's input and image, and what the
  handler reads from the render it was created in (model, thinking budget, mode, number of
  turns, and the notepad content, which the prompts take from that render and not from the
  updates made since).
\<close>

record Flow =
  flowUserInput :: jsstring
  flowImage :: "ImagePart option"
  flowModel :: jsstring
  flowThinking :: "nat option"
  flowMode :: DiscussionMode
  flowFixedTurns :: int
  flowNotepad :: jsstring

text \<open>The local variables of the discussion loop.\<close>

record Locals =
  currentDiscussionLog :: DiscussionLog
  lastTurnTextForLog :: jsstring
  previousAISignaledStop :: bool

definition stepSender :: "StepId \<Rightarrow> MessageSender" where
  "stepSender sid = (case sid of MuseReply _ \<Rightarrow> Muse | _ \<Rightarrow> Cognito)"

definition stepPurpose :: "StepId \<Rightarrow> MessagePurpose" where
  "stepPurpose sid =
     (case sid of MuseReply _ \<Rightarrow> MuseToCognito | FinalAnswer \<Rightarrow> FinalResponse | _ \<Rightarrow> CognitoToMuse)"

definition stepInstruction :: "StepId \<Rightarrow> SystemInstruction" where
  "stepInstruction sid =
     (case sid of MuseReply _ \<Rightarrow> MUSE_SYSTEM_PROMPT_HEADER | _ \<Rightarrow> COGNITO_SYSTEM_PROMPT_HEADER)"

text \<open>
  The prompt of a step. The opening prompt has no log and no quoted turn; the final one
  quotes no turn; only the two reply prompts get the sentence about the partner's proposal,
  in the AI-driven mode and when the previous signal is set.
\<close>

definition stepPrompt :: "Flow \<Rightarrow> StepId \<Rightarrow> Locals \<Rightarrow> Prompt" where
  "stepPrompt f sid v =
     \<lparr> promptTemplate = sid,
       promptUserInput = flowUserInput f,
       promptImageNote = (flowImage f \<noteq> None),
       promptLog = (if sid = CognitoInitial then [] else currentDiscussionLog v),
       promptLastTurn =
         (case sid of MuseReply _ \<Rightarrow> lastTurnTextForLog v
                    | CognitoReply _ \<Rightarrow> lastTurnTextForLog v
                    | _ \<Rightarrow> []),
       promptNotepad = flowNotepad f,
       promptAiDrivenPart = (flowMode f = AiDriven),
       promptPartnerProposedEnd =
         (case sid of MuseReply _ \<Rightarrow> flowMode f = AiDriven \<and> previousAISignaledStop v
                    | CognitoReply _ \<Rightarrow> flowMode f = AiDriven \<and> previousAISignaledStop v
                    | _ \<Rightarrow> False) \<rparr>"

text \<open>
  The object given to \<^verbatim>\<open>setFailedStepInfo\<close> when a step has used up its attempts, before
  the identifier of the failure message is put in. The opening step stores an empty log and
  a false previous signal and no turn index; the final step stores neither a turn index nor
  a previous signal.
\<close>

definition failedStepPayload :: "Flow \<Rightarrow> StepId \<Rightarrow> Locals \<Rightarrow> FailedStepPayload" where
  "failedStepPayload f sid v =
     \<lparr> stepIdentifier = sid,
       prompt = stepPrompt f sid v,
       modelName = flowModel f,
       systemInstruction = stepInstruction sid,
       imageApiPart = flowImage f,
       sender = stepSender sid,
       purpose = stepPurpose sid,
       originalSystemErrorMsgId = 0,
       thinkingConfig = flowThinking f,
       userInputForFlow = flowUserInput f,
       imageApiPartForFlow = flowImage f,
       discussionLogBeforeFailure = (if sid = CognitoInitial then [] else currentDiscussionLog v),
       currentTurnIndexForResume =
         (case sid of MuseReply t \<Rightarrow> Some t | CognitoReply t \<Rightarrow> Some t | _ \<Rightarrow> None),
       previousAISignaledStopForResume =
         (case sid of CognitoInitial \<Rightarrow> Some False
                    | FinalAnswer \<Rightarrow> None
                    | _ \<Rightarrow> Some (previousAISignaledStop v)) \<rparr>"

text \<open>
  How the \<^verbatim>\<open>for (attempt = 0; attempt <= MAX_AUTO_RETRIES; attempt++)\<close> loop of a step ends:
  with a parsed response; by leaving the loop without one (\<open>Broke\<close>: the cancel flag);
  by the \<^verbatim>\<open>return\<close> after \<^verbatim>\<open>setFailedStepInfo\<close> (\<open>Exhausted\<close>); by rethrowing the
  authentication error (\<open>Threw\<close>, with the message); or not at all, the call being without
  answer (\<open>Awaiting\<close>).
\<close>

datatype StepResult = Succeeded ParsedAIResponse | Broke | Exhausted | Threw jsstring | Awaiting

text \<open>
  The loop is written seven times in App.tsx, with the same body. The step it runs for is
  given by the payload it would store on failure: the call is made with the payload's
  prompt, model, system instruction, image and thinking budget, and the response is shown
  under the payload's sender and purpose.
\<close>

fun attemptLoop ::
  "bool \<Rightarrow> FailedStepPayload \<Rightarrow> nat \<Rightarrow> AttemptEnv list \<Rightarrow> AppState \<Rightarrow> StepResult \<times> AppState" where
  "attemptLoop resumedFlow p attempt envs s =
     (if \<not> attempt \<le> MAX_AUTO_RETRIES then (Broke, s)
      else if cancelRequest s then (Broke, s)
      else
        (case envs of
           [] \<Rightarrow> (Awaiting, issueCall p s)
         | e # rest \<Rightarrow>
            (let s1 = (issueCall p s)\<lparr> cancelRequest := stopDuringCall e \<rparr>
             in if cancelRequest s1 then (Broke, s1)
                else
                  (case resultError (apiResult e) of
                     None \<Rightarrow>
                       (let parsed = parseAIResponse (resultText (apiResult e))
                        in (Succeeded parsed,
                            snd (addMessage (Spoken (spokenText parsed)) (sender p) (purpose p)
                                   (Some (resultDurationMs (apiResult e))) s1)))
                   | Some err \<Rightarrow>
                       (let message = resultText (apiResult e)
                        in if js_includes err API_KEY_NOT_VALID
                           then (Threw message,
                                 notify (ErrorNotice message) (s1\<lparr> isApiKeyMissing := True \<rparr>))
                           else if attempt < MAX_AUTO_RETRIES
                           then attemptLoop resumedFlow p (attempt + 1) rest
                                  ((notify (CallFailedRetrying resumedFlow (stepIdentifier p)
                                              (attempt + 1) message) s1)
                                     \<lparr> cancelRequest := stopDuringDelay e \<rparr>)
                           else
                             (let (errorMsgId, s2) =
                                    addMessage (Note (CallFailedFinal resumedFlow
                                                        (stepIdentifier p) message))
                                      System SystemNotification None s1
                              in (Exhausted,
                                  s2\<lparr> failedStepInfo :=
                                        Some (p\<lparr> originalSystemErrorMsgId := errorMsgId \<rparr>) \<rparr>)))))))"

section \<open>The discussion loop\<close>

text \<open>
  How the discussion loop is left: by \<^verbatim>\<open>break\<close> (the handler goes on behind the loop), by
  the \<^verbatim>\<open>return\<close> of a step that stored its failure, by the \<^verbatim>\<open>return\<close> of a step that did
  not succeed, by the authentication error, or not at all.
\<close>

datatype LoopExit = LoopBreak | LoopExhausted | LoopBroke | LoopThrew jsstring | LoopAwaiting

text \<open>
  The loop stands twice in App.tsx: in \<^verbatim>\<open>handleSendMessage\<close> and in
  \<^verbatim>\<open>continueDiscussionAfterSuccessfulRetry\<close>. The copies differ in what these parameters
  say: the labels of the resumed flow; the stored signal that the guard at the head of the
  loop reads (the opening response's signal in the first flow, the failed step's previous
  signal in the resumed one); the turn the loop starts at; whether Muse's half of that turn
  is skipped; and a second guard between the two halves, which only the resumed flow has.
\<close>

record LoopParams =
  resumed :: bool
  storedSignal :: bool
  initialLoopTurn :: nat
  skipMuseInFirstIteration :: bool

text \<open>
  One half of a turn: the step \<open>sid\<close> spoken by \<open>who\<close> in reply to \<open>partner\<close>. The first
  component of the result is the way the loop is left, if it is.
\<close>

definition replyTurn ::
  "Flow \<Rightarrow> LoopParams \<Rightarrow> StepId \<Rightarrow> MessageSender \<Rightarrow> MessageSender \<Rightarrow> Locals \<Rightarrow> StepEnv list
     \<Rightarrow> AppState \<Rightarrow> LoopExit option \<times> Locals \<times> StepEnv list \<times> AppState" where
  "replyTurn f lp sid who partner v script s =
     (let s1 = notify (Preparing sid) s;
          (r, s2) = attemptLoop (resumed lp) (failedStepPayload f sid v) 0 (nextEnv script) s1
      in case r of
           Broke \<Rightarrow> (Some LoopBroke, v, tl script, s2)
         | Exhausted \<Rightarrow> (Some LoopExhausted, v, tl script, s2)
         | Threw m \<Rightarrow> (Some (LoopThrew m), v, tl script, s2)
         | Awaiting \<Rightarrow> (Some LoopAwaiting, v, tl script, s2)
         | Succeeded parsed \<Rightarrow>
            (let s3 = applyNotepad parsed who s2;
                 signalFromPartner = previousAISignaledStop v;
                 v' = \<lparr> currentDiscussionLog = currentDiscussionLog v @ [(who, spokenText parsed)],
                        lastTurnTextForLog = spokenText parsed,
                        previousAISignaledStop = discussionShouldEnd parsed \<rparr>;
                 s4 = s3\<lparr> discussionLog := currentDiscussionLog v' \<rparr>
             in if flowMode f = AiDriven
                then (if previousAISignaledStop v' \<and> signalFromPartner
                      then (Some LoopBreak, v', tl script, notify (BothAgreed partner who) s4)
                      else if previousAISignaledStop v'
                      then (None, v', tl script, notify (SuggestsEnd who) s4)
                      else (None, v', tl script, s4))
                else (None, v', tl script, s4)))"

definition museTurn ::
  "Flow \<Rightarrow> LoopParams \<Rightarrow> nat \<Rightarrow> Locals \<Rightarrow> StepEnv list \<Rightarrow> AppState
     \<Rightarrow> LoopExit option \<times> Locals \<times> StepEnv list \<times> AppState" where
  "museTurn f lp turn v script s =
     (if skipMuseInFirstIteration lp \<and> turn = initialLoopTurn lp then (None, v, script, s)
      else replyTurn f lp (MuseReply turn) Muse Cognito v script s)"

definition cognitoReplyTurn ::
  "Flow \<Rightarrow> LoopParams \<Rightarrow> nat \<Rightarrow> Locals \<Rightarrow> StepEnv list \<Rightarrow> AppState
     \<Rightarrow> LoopExit option \<times> Locals \<times> StepEnv list \<times> AppState" where
  "cognitoReplyTurn f lp turn v script s =
     replyTurn f lp (CognitoReply turn) Cognito Muse v script s"

function discussionLoop ::
  "Flow \<Rightarrow> LoopParams \<Rightarrow> nat \<Rightarrow> Locals \<Rightarrow> StepEnv list \<Rightarrow> AppState
     \<Rightarrow> LoopExit \<times> Locals \<times> StepEnv list \<times> AppState" where
  "discussionLoop f lp turn v script s =
     (if cancelRequest s then (LoopBreak, v, script, s)
      else if flowMode f = FixedTurns \<and> int turn \<ge> flowFixedTurns f then (LoopBreak, v, script, s)
      else if flowMode f = AiDriven \<and> previousAISignaledStop v \<and> storedSignal lp
              \<and> turn > initialLoopTurn lp
      then (LoopBreak, v, script, s)
      else
        (case museTurn f lp turn v script s of
           (Some exit, v1, script1, s1) \<Rightarrow> (exit, v1, script1, s1)
         | (None, v1, script1, s1) \<Rightarrow>
            (if cancelRequest s1 then (LoopBreak, v1, script1, s1)
             else if resumed lp \<and> flowMode f = AiDriven \<and> previousAISignaledStop v1
                     \<and> storedSignal lp
             then (LoopBreak, v1, script1, s1)
             else if flowMode f = FixedTurns \<and> int turn \<ge> flowFixedTurns f - 1
             then (LoopBreak, v1, script1, s1)
             else
               (case cognitoReplyTurn f lp turn v1 script1 s1 of
                  (Some exit, v2, script2, s2) \<Rightarrow> (exit, v2, script2, s2)
                | (None, v2, script2, s2) \<Rightarrow> discussionLoop f lp (turn + 1) v2 script2 s2))))"
  by pat_completeness auto

section \<open>The handlers\<close>

text \<open>
  A handler has returned, or it is suspended in a call that has no answer yet. The handlers
  read some state variables from the render they were created in; that state is the
  argument \<open>s0\<close>, and the state they write to is threaded through.
\<close>

datatype Run = Returned | Suspended

text \<open>
  The \<^verbatim>\<open>finally\<close> block of \<^verbatim>\<open>handleSendMessage\<close> and of
  \<^verbatim>\<open>continueDiscussionAfterSuccessfulRetry\<close>.
\<close>

definition finallyBlock :: "AppState \<Rightarrow> AppState \<Rightarrow> Run \<times> AppState" where
  "finallyBlock s0 s =
     (let wasCancelled = cancelRequest s;
          s1 = s\<lparr> isLoading := False \<rparr>
      in (Returned,
          if wasCancelled \<and> failedStepInfo s0 = None then notify UserStopped s1 else s1))"

text \<open>
  What \<^verbatim>\<open>handleSendMessage\<close> does before the \<^verbatim>\<open>return\<close> of a step that did not succeed,
  and behind the loop when the cancel flag is set.
\<close>

definition stoppedReturn :: "AppState \<Rightarrow> AppState \<Rightarrow> AppState" where
  "stoppedReturn s0 s =
     (let s1 = s\<lparr> isLoading := False \<rparr>
      in if cancelRequest s \<and> failedStepInfo s0 = None then notify UserStopped s1 else s1)"

text \<open>
  The \<^verbatim>\<open>catch\<close> block of the two flows. The only error thrown to it is the authentication
  error, which carries \<^verbatim>\<open>isApiKeyError\<close>. The test whether a message already shows the
  error reads the message list of the render the handler was created in, through the
  wording of the messages, which is a parameter.
\<close>

definition catchBlock :: "(MessageText \<Rightarrow> jsstring) \<Rightarrow> AppState \<Rightarrow> jsstring \<Rightarrow> AppState \<Rightarrow> AppState" where
  "catchBlock wording s0 message s =
     (let s1 = (if \<not> list_ex (\<lambda>m. js_includes (wording (msgText m)) message) (messages s0)
                then snd (addMessage (Note (KeyErrorDisplay message)) System SystemNotification
                            (Some 0) s)
                else s)
      in s1\<lparr> isApiKeyMissing := True \<rparr>)"

definition finalAnswer ::
  "Flow \<Rightarrow> bool \<Rightarrow> Locals \<Rightarrow> StepEnv list \<Rightarrow> AppState \<Rightarrow> StepResult \<times> AppState" where
  "finalAnswer f resumedFlow v script s =
     (let s1 = notify (Preparing FinalAnswer) s;
          (r, s2) = attemptLoop resumedFlow (failedStepPayload f FinalAnswer v) 0 (nextEnv script) s1
      in case r of
           Succeeded parsed \<Rightarrow> (r, applyNotepad parsed Cognito s2)
         | _ \<Rightarrow> (r, s2))"

text \<open>
  What a step that did not succeed leaves to do before the \<^verbatim>\<open>finally\<close> block: the first
  flow resets the loading flag (and tells of the stop) itself, the resumed flow only returns.
\<close>

definition afterStep ::
  "(MessageText \<Rightarrow> jsstring) \<Rightarrow> AppState \<Rightarrow> bool \<Rightarrow> StepResult \<Rightarrow> AppState \<Rightarrow> Run \<times> AppState" where
  "afterStep wording s0 resumedFlow r s =
     (case r of
        Succeeded _ \<Rightarrow> finallyBlock s0 s
      | Exhausted \<Rightarrow> finallyBlock s0 (if resumedFlow then s else s\<lparr> isLoading := False \<rparr>)
      | Broke \<Rightarrow> finallyBlock s0 (if resumedFlow then s else stoppedReturn s0 s)
      | Threw m \<Rightarrow> finallyBlock s0 (catchBlock wording s0 m s)
      | Awaiting \<Rightarrow> (Suspended, s))"

text \<open>The part of both flows from the exit of the loop on, with the final answer.\<close>

definition afterLoop ::
  "(MessageText \<Rightarrow> jsstring) \<Rightarrow> AppState \<Rightarrow> Flow \<Rightarrow> bool \<Rightarrow> LoopExit \<Rightarrow> Locals \<Rightarrow> StepEnv list
     \<Rightarrow> AppState \<Rightarrow> Run \<times> AppState" where
  "afterLoop wording s0 f resumedFlow exit v script s =
     (case exit of
        LoopExhausted \<Rightarrow> afterStep wording s0 resumedFlow Exhausted s
      | LoopBroke \<Rightarrow> afterStep wording s0 resumedFlow Broke s
      | LoopThrew m \<Rightarrow> afterStep wording s0 resumedFlow (Threw m) s
      | LoopAwaiting \<Rightarrow> (Suspended, s)
      | LoopBreak \<Rightarrow>
          (if cancelRequest s then afterStep wording s0 resumedFlow Broke s
           else (let (r, s1) = finalAnswer f resumedFlow v script s
                 in afterStep wording s0 resumedFlow r s1)))"

text \<open>
  \<^verbatim>\<open>handleSendMessage\<close>. The image is taken as already encoded (the conversion of the file
  and its failure are outside the model).
\<close>

definition handleSendMessage ::
  "(MessageText \<Rightarrow> jsstring) \<Rightarrow> jsstring \<Rightarrow> ImagePart option \<Rightarrow> StepEnv list \<Rightarrow> AppState
     \<Rightarrow> Run \<times> AppState" where
  "handleSendMessage wording userInput imageFile script s0 =
     (if isApiKeyMissing s0 \<or> isLoading s0 then (Returned, s0)
      else if js_trim userInput = [] \<and> imageFile = None then (Returned, s0)
      else
        (let s1 = s0\<lparr> cancelRequest := False, isLoading := True, failedStepInfo := None,
                      discussionLog := [] \<rparr>;
             s2 = snd (addMessage (UserText userInput) User UserInput None s1);
             f = \<lparr> flowUserInput = userInput, flowImage = imageFile,
                   flowModel = selectedModelApiName s0, flowThinking = activeThinkingConfig s0,
                   flowMode = discussionMode s0, flowFixedTurns = manualFixedTurns s0,
                   flowNotepad = notepadContent s0 \<rparr>;
             v0 = \<lparr> currentDiscussionLog = [], lastTurnTextForLog = [],
                    previousAISignaledStop = False \<rparr>;
             s3 = notify (Preparing CognitoInitial) s2;
             (r, s4) = attemptLoop False (failedStepPayload f CognitoInitial v0) 0 (nextEnv script) s3
         in case r of
              Succeeded cognitoParsedResponse \<Rightarrow>
                (let s5 = applyNotepad cognitoParsedResponse Cognito s4;
                     v1 = \<lparr> currentDiscussionLog = [(Cognito, spokenText cognitoParsedResponse)],
                            lastTurnTextForLog = spokenText cognitoParsedResponse,
                            previousAISignaledStop =
                              (flowMode f = AiDriven \<and> discussionShouldEnd cognitoParsedResponse) \<rparr>;
                     s6 = s5\<lparr> discussionLog := currentDiscussionLog v1 \<rparr>;
                     s7 = (if previousAISignaledStop v1 then notify (SuggestsEnd Cognito) s6 else s6);
                     lp = \<lparr> resumed = False,
                            storedSignal = discussionShouldEnd cognitoParsedResponse,
                            initialLoopTurn = 0, skipMuseInFirstIteration = False \<rparr>;
                     (exit, v2, script2, s8) = discussionLoop f lp 0 v1 (tl script) s7
                 in afterLoop wording s0 f False exit v2 script2 s8)
            | _ \<Rightarrow> afterStep wording s0 False r s4))"

text \<open>
  \<^verbatim>\<open>continueDiscussionAfterSuccessfulRetry\<close>. An absent turn index counts as 0 and an absent
  previous signal as false.
\<close>

definition continueDiscussionAfterSuccessfulRetry ::
  "(MessageText \<Rightarrow> jsstring) \<Rightarrow> AppState \<Rightarrow> FailedStepPayload \<Rightarrow> ParsedAIResponse \<Rightarrow> StepEnv list
     \<Rightarrow> AppState \<Rightarrow> Run \<times> AppState" where
  "continueDiscussionAfterSuccessfulRetry wording s0 retriedStepPayload retryResponse script s =
     (let f = \<lparr> flowUserInput = userInputForFlow retriedStepPayload,
                flowImage = imageApiPartForFlow retriedStepPayload,
                flowModel = selectedModelApiName s0, flowThinking = activeThinkingConfig s0,
                flowMode = discussionMode s0, flowFixedTurns = manualFixedTurns s0,
                flowNotepad = notepadContent s0 \<rparr>;
          localDiscussionLog = discussionLogBeforeFailure retriedStepPayload
            @ [(sender retriedStepPayload, spokenText retryResponse)];
          s1 = s\<lparr> discussionLog := localDiscussionLog \<rparr>;
          localPreviousAISignaledStop =
            (flowMode f = AiDriven \<and> discussionShouldEnd retryResponse);
          previousForResume = (previousAISignaledStopForResume retriedStepPayload = Some True);
          turnForResume =
            (case currentTurnIndexForResume retriedStepPayload of None \<Rightarrow> 0 | Some t \<Rightarrow> t);
          v = \<lparr> currentDiscussionLog = localDiscussionLog,
                lastTurnTextForLog = spokenText retryResponse,
                previousAISignaledStop = localPreviousAISignaledStop \<rparr>;
          agreed = (flowMode f = AiDriven \<and> localPreviousAISignaledStop \<and> previousForResume)
      in case stepIdentifier retriedStepPayload of
           FinalAnswer \<Rightarrow> (Returned, s1\<lparr> isLoading := False \<rparr>)
         | sid \<Rightarrow>
            (let (initialTurn, skipMuse, s2) =
                   (case sid of
                      CognitoInitial \<Rightarrow>
                        (0, False,
                         if localPreviousAISignaledStop then notify (SuggestsEnd Cognito) s1 else s1)
                    | MuseReply _ \<Rightarrow>
                        (turnForResume, True,
                         if agreed then notify (BothAgreed Cognito Muse) s1
                         else if flowMode f = AiDriven \<and> localPreviousAISignaledStop
                         then notify (SuggestsEnd Muse) s1 else s1)
                    | _ \<Rightarrow>
                        (turnForResume + 1, False,
                         if agreed then notify (BothAgreed Muse Cognito) s1
                         else if flowMode f = AiDriven \<and> localPreviousAISignaledStop
                         then notify (SuggestsEnd Cognito) s1 else s1));
                 lp = \<lparr> resumed = True, storedSignal = previousForResume,
                        initialLoopTurn = initialTurn, skipMuseInFirstIteration = skipMuse \<rparr>;
                 (exit, v2, script2, s3) =
                   (if agreed then (LoopBreak, v, script, s2)
                    else discussionLoop f lp initialTurn v script s2)
             in afterLoop wording s0 f True exit v2 script2 s3))"

text \<open>
  \<^verbatim>\<open>handleManualRetry\<close>. The wording put in for an empty error message is
  U+672A U+77E5 U+9519 U+8BEF ("unknown error").
\<close>

definition unknownErrorWording :: jsstring where
  "unknownErrorWording = [0x672A, 0x77E5, 0x9519, 0x8BEF]"

definition manualFinally :: "AppState \<Rightarrow> AppState \<Rightarrow> Run \<times> AppState" where
  "manualFinally s0 s =
     (Returned,
      if failedStepInfo s0 \<noteq> None \<or> cancelRequest s
      then (let s1 = s\<lparr> isLoading := False \<rparr>
            in if cancelRequest s \<and> failedStepInfo s0 = None
               then notify ManualRetryStopped s1 else s1)
      else s)"

definition handleManualRetry ::
  "(MessageText \<Rightarrow> jsstring) \<Rightarrow> FailedStepPayload \<Rightarrow> StepEnv list \<Rightarrow> AppState \<Rightarrow> Run \<times> AppState" where
  "handleManualRetry wording stepToRetry script s0 =
     (if isLoading s0 then (Returned, s0)
      else
        (let s1 = s0\<lparr> isLoading := True, cancelRequest := False \<rparr>;
             s2 = s1\<lparr> messages :=
                        filter (\<lambda>m. msgId m \<noteq> originalSystemErrorMsgId stepToRetry) (messages s1) \<rparr>;
             s3 = notify (ManualRetrying (sender stepToRetry) (stepIdentifier stepToRetry)) s2;
             s4 = issueCall stepToRetry s3
         in case nextEnv script of
              [] \<Rightarrow> (Suspended, s4)
            | e # _ \<Rightarrow>
               (let s5 = s4\<lparr> cancelRequest := stopDuringCall e \<rparr>
                in if cancelRequest s5 then manualFinally s0 s5
                   else
                     (case resultError (apiResult e) of
                        Some err \<Rightarrow>
                          (let isApiKeyError = js_includes err API_KEY_NOT_VALID;
                               s6 = (if isApiKeyError then s5\<lparr> isApiKeyMissing := True \<rparr> else s5);
                               message = resultText (apiResult e);
                               errorMsg = (if message = [] then unknownErrorWording else message);
                               (newErrorMsgId, s7) =
                                 addMessage (Note (ManualRetryFailed (sender stepToRetry)
                                                     (stepIdentifier stepToRetry) errorMsg))
                                   System SystemNotification None s6;
                               s8 = (if isApiKeyError then s7\<lparr> isApiKeyMissing := True \<rparr> else s7)
                           in manualFinally s0
                                (s8\<lparr> failedStepInfo :=
                                       Some (stepToRetry\<lparr> originalSystemErrorMsgId := newErrorMsgId \<rparr>) \<rparr>))
                      | None \<Rightarrow>
                          (let parsedResponseFromRetry = parseAIResponse (resultText (apiResult e));
                               s6 = snd (addMessage (Spoken (spokenText parsedResponseFromRetry))
                                          (sender stepToRetry) (purpose stepToRetry)
                                          (Some (resultDurationMs (apiResult e))) s5);
                               s7 = applyNotepad parsedResponseFromRetry (sender stepToRetry) s6;
                               s8 = notify (ManualRetrySucceeded (sender stepToRetry)
                                              (stepIdentifier stepToRetry)) s7;
                               s9 = s8\<lparr> failedStepInfo := None \<rparr>
                           in case continueDiscussionAfterSuccessfulRetry wording s0 stepToRetry
                                     parsedResponseFromRetry (tl script) s9 of
                                (Suspended, s10) \<Rightarrow> (Suspended, s10)
                              | (Returned, s10) \<Rightarrow> manualFinally s0 s10)))))"

section \<open>Specification-side notions for the orchestrator\<close>

text \<open>A step answered at its first attempt, with no error and no Stop.\<close>

definition answers :: "jsstring \<Rightarrow> StepEnv" where
  "answers t =
     [\<lparr> apiResult = \<lparr> resultText = t, resultError = None, resultDurationMs = 0 \<rparr>,
        stopDuringCall = False, stopDuringDelay = False \<rparr>]"


text \<open>The state of a freshly started application, in a given mode.\<close>

definition initialState :: "DiscussionMode \<Rightarrow> int \<Rightarrow> AppState" where
  "initialState mode turns =
     \<lparr> messages = [], isLoading = False, isApiKeyMissing = False, notepadContent = [],
       lastNotepadUpdateBy = None, discussionLog = [], selectedModelApiName = [],
       discussionMode = mode, manualFixedTurns = turns, isThinkingBudgetActive = True,
       failedStepInfo = None, cancelRequest = False, nextMessageId = 0, calls = [] \<rparr>"

text \<open>The steps for which calls were made, in order.\<close>

definition stepsCalled :: "AppState \<Rightarrow> StepId list" where
  "stepsCalled s = map fst (calls s)"

text \<open>Two neighbouring signals of a sequence are both true.\<close>

fun adjacentAgreement :: "bool list \<Rightarrow> bool" where
  "adjacentAgreement (a # b # rest) = ((a \<and> b) \<or> adjacentAgreement (b # rest))"
| "adjacentAgreement _ = False"


text \<open>A system notification with a given identifier.\<close>

definition systemNote :: "nat \<Rightarrow> Notice \<Rightarrow> ChatMessage" where
  "systemNote i n =
     \<lparr> msgId = i, msgText = Note n, msgSender = System, msgPurpose = SystemNotification,
       msgDurationMs = None \<rparr>"




text \<open>The steps of a list that belong to the turns after turn \<open>k\<close>, or are the final answer.\<close>

definition afterTurn :: "nat \<Rightarrow> StepId \<Rightarrow> bool" where
  "afterTurn k sid =
     (case sid of
        MuseReply j \<Rightarrow> k < j
      | CognitoReply j \<Rightarrow> k < j
      | FinalAnswer \<Rightarrow> True
      | CognitoInitial \<Rightarrow> False)"




text \<open>Every step of a script is answered at its first attempt, with no error and no Stop.\<close>

definition answered :: "StepEnv \<Rightarrow> bool" where
  "answered e =
     (case e of
        [] \<Rightarrow> False
      | a # _ \<Rightarrow> resultError (apiResult a) = None \<and> \<not> stopDuringCall a)"

text \<open>The guards at the head of the discussion loop and between its two halves.\<close>

definition headGuard :: "Flow \<Rightarrow> LoopParams \<Rightarrow> nat \<Rightarrow> Locals \<Rightarrow> AppState \<Rightarrow> bool" where
  "headGuard f lp turn v s =
     (cancelRequest s \<or> (flowMode f = FixedTurns \<and> int turn \<ge> flowFixedTurns f)
      \<or> (flowMode f = AiDriven \<and> previousAISignaledStop v \<and> storedSignal lp
           \<and> turn > initialLoopTurn lp))"

definition midGuard :: "Flow \<Rightarrow> LoopParams \<Rightarrow> nat \<Rightarrow> Locals \<Rightarrow> AppState \<Rightarrow> bool" where
  "midGuard f lp turn v s =
     (cancelRequest s
      \<or> (resumed lp \<and> flowMode f = AiDriven \<and> previousAISignaledStop v \<and> storedSignal lp)
      \<or> (flowMode f = FixedTurns \<and> int turn \<ge> flowFixedTurns f - 1))"





text \<open>Sample values for the concrete runs below.\<close>

definition exampleFlow :: "DiscussionMode \<Rightarrow> int \<Rightarrow> Flow" where
  "exampleFlow mode turns =
     \<lparr> flowUserInput = ascii ''q'', flowImage = None, flowModel = [], flowThinking = Some 24576,
       flowMode = mode, flowFixedTurns = turns, flowNotepad = [] \<rparr>"

definition exampleLocals :: Locals where
  "exampleLocals =
     \<lparr> currentDiscussionLog = [(Cognito, ascii ''A''), (Muse, ascii ''B'')],
       lastTurnTextForLog = ascii ''B'', previousAISignaledStop = False \<rparr>"

definition noWording :: "MessageText \<Rightarrow> jsstring" where
  "noWording t = []"

text \<open>
  The state in which the reply of Cognito in turn \<open>k\<close> has failed: the checkpoint of that
  step is stored and points at the failure notice, message 0.
\<close>

definition failedCognitoReply :: "DiscussionMode \<Rightarrow> int \<Rightarrow> nat \<Rightarrow> AppState" where
  "failedCognitoReply mode turns k =
     (initialState mode turns)
       \<lparr> messages := [systemNote 0 (CallFailedFinal False (CognitoReply k) (ascii ''overloaded''))],
         failedStepInfo := Some (failedStepPayload (exampleFlow mode turns) (CognitoReply k) exampleLocals),
         nextMessageId := 1 \<rparr>"




text \<open>A step of the discussion loop that belongs to turn \<open>t\<close> or to a later turn.\<close>

definition inTurnsFrom :: "nat \<Rightarrow> StepId \<Rightarrow> bool" where
  "inTurnsFrom t sid =
     (case sid of MuseReply j \<Rightarrow> t \<le> j | CognitoReply j \<Rightarrow> t \<le> j | _ \<Rightarrow> False)"

text \<open>What is observed of a run: whether the handler returned, and the steps it made calls for.\<close>

definition observed :: "Run \<times> AppState \<Rightarrow> Run \<times> StepId list" where
  "observed R = (fst R, stepsCalled (snd R))"

section \<open>Termination of the discussion loop\<close>

text \<open>
  The loop has no bound of its own in the AI-driven mode. It ends here because every half
  turn that lets the loop go on has used up one entry of the finite script.
\<close>

lemma attemptLoop_no_answer:
  "attemptLoop resumedFlow p attempt [] s = (r, s') \<Longrightarrow> r = Broke \<or> r = Awaiting"
  by (auto split: if_splits)

lemma replyTurn_script:
  assumes "replyTurn f lp sid who partner v script s = (r, v', script', s')"
  shows "script' = tl script \<and> (r = None \<longrightarrow> script \<noteq> [])"
proof -
  obtain res s2 where a: "attemptLoop (resumed lp) (failedStepPayload f sid v) 0 (nextEnv script)
      (notify (Preparing sid) s) = (res, s2)" by (cases "attemptLoop (resumed lp)
      (failedStepPayload f sid v) 0 (nextEnv script) (notify (Preparing sid) s)") blast
  have "res = Broke \<or> res = Awaiting" if "script = []"
    using a that attemptLoop_no_answer [of "resumed lp" "failedStepPayload f sid v" 0
        "notify (Preparing sid) s" res s2]
    by (simp add: nextEnv_def)
  then show ?thesis using assms a
    by (auto simp: replyTurn_def Let_def split: StepResult.splits if_splits)
qed

lemma museTurn_script:
  "museTurn f lp turn v script s = (r, v', script', s') \<Longrightarrow> length script' \<le> length script"
  by (auto simp: museTurn_def dest!: replyTurn_script split: if_splits)

lemma cognitoReplyTurn_script:
  "cognitoReplyTurn f lp turn v script s = (None, v', script', s')
     \<Longrightarrow> length script' < length script"
  by (auto simp: cognitoReplyTurn_def dest!: replyTurn_script)

termination discussionLoop
proof (relation "measure (\<lambda>(f, lp, turn, v, script, s). length script)", goal_cases)
  case 1
  show ?case by simp
next
  case (2 f lp turn v script s x1 x2 v1 x3 script1 s1 y1 y2 v2 y3 script2 s2)
  have "length script1 \<le> length script"
    using 2(4,5,6,7) museTurn_script [of f lp turn v script s x1 v1 script1 s1] by simp
  moreover have "length script2 < length script1"
    using 2 cognitoReplyTurn_script [of f lp turn v1 script1 s1 v2 script2 s2] by simp
  ultimately show ?case by simp
qed

section \<open>Properties of the parser\<close>

lemma backslash_special: "backslash \<in> set regexSpecial"
  by (simp add: regexSpecial_def)

lemma regexLiteral_plain:
  "c \<notin> set regexSpecial \<Longrightarrow> regexLiteral (c # r) = map_option (Cons c) (regexLiteral r)"
  using backslash_special by (cases r) auto

lemma regexLiteral_escapeRegExp: "regexLiteral (escapeRegExp s) = Some s"
proof (induction s)
  case Nil
  show ?case by (simp add: escapeRegExp_def)
next
  case (Cons c cs)
  have step: "escapeRegExp (c # cs) =
      (if c \<in> set regexSpecial then [backslash, c] else [c]) @ escapeRegExp cs"
    by (simp add: escapeRegExp_def)
  show ?case
  proof (cases "c \<in> set regexSpecial")
    case True
    then show ?thesis using Cons.IH by (simp add: step)
  next
    case False
    then show ?thesis using Cons.IH by (simp add: step regexLiteral_plain)
  qed
qed

lemma removeCompletionTag_eq:
  "removeCompletionTag s = replaceAllLiteral DISCUSSION_COMPLETE_TAG [] s"
  by (simp add: removeCompletionTag_def regexLiteral_escapeRegExp)

lemma trim_ends:
  assumes "js_trim s \<noteq> []"
  shows "\<not> isWhiteSpace (hd (js_trim s)) \<and> \<not> isWhiteSpace (last (js_trim s))"
proof -
  let ?d = "dropWhile isWhiteSpace s"
  let ?e = "dropWhile isWhiteSpace (rev ?d)"
  from assms have e: "?e \<noteq> []" by (simp add: js_trim_def)
  then have d: "?d \<noteq> []" by (cases "?d = []") simp_all
  have hd_d: "\<not> isWhiteSpace (hd ?d)" using d by (simp add: hd_dropWhile)
  have hd_e: "\<not> isWhiteSpace (hd ?e)" using e by (simp add: hd_dropWhile)
  have "suffix ?e (rev ?d)" by (rule suffix_dropWhile)
  then obtain p where p: "rev ?d = p @ ?e" by (auto simp: suffix_def)
  have "last ?e = last (rev ?d)" using e by (subst p) simp
  also have "\<dots> = hd ?d" using d by (simp add: last_rev)
  finally have last_e: "last ?e = hd ?d" .
  have "hd (js_trim s) = last ?e" using e by (simp add: js_trim_def hd_rev)
  moreover have "last (js_trim s) = hd ?e" using e by (simp add: js_trim_def last_rev)
  ultimately show ?thesis using hd_d hd_e last_e by simp
qed

lemma trim_fixed:
  assumes "s = [] \<or> (\<not> isWhiteSpace (hd s) \<and> \<not> isWhiteSpace (last s))"
  shows "js_trim s = s"
proof (cases "s = []")
  case True
  then show ?thesis by (simp add: js_trim_def)
next
  case False
  with assms have h: "\<not> isWhiteSpace (hd s)" and l: "\<not> isWhiteSpace (last s)" by auto
  have 1: "dropWhile isWhiteSpace s = s" using h False by (cases s) auto
  have "hd (rev s) = last s" using False by (simp add: hd_rev)
  then have 2: "dropWhile isWhiteSpace (rev s) = rev s"
    using l False by (simp add: dropWhile_eq_self_iff)
  show ?thesis by (simp add: js_trim_def 1 2)
qed

lemma trim_idem: "js_trim (js_trim s) = js_trim s"
  using trim_ends [of s] by (intro trim_fixed) blast



lemma deleteOccurrences_nths:
  "deleteOccurrences pat s = nths s {j. \<not> inOccurrence pat s j}"
  by (simp add: deleteOccurrences_def nths_def)

lemma nths_none: "(\<And>j. j < length xs \<Longrightarrow> j \<notin> A) \<Longrightarrow> nths xs A = []"
  by (auto simp: nths_def filter_empty_conv in_set_zip)

lemma prefix_drop_nth:
  assumes "prefix p (drop i s)" "k < length p"
  shows "s ! (i + k) = p ! k"
proof -
  from assms(1) obtain r where r: "drop i s = p @ r" by (auto simp: prefix_def)
  have "i + k < length s"
  proof -
    have "length (drop i s) = length p + length r" by (simp add: r)
    then show ?thesis using assms(2) by simp
  qed
  then have "s ! (i + k) = drop i s ! k" by simp
  also have "\<dots> = p ! k" using assms(2) by (simp add: r nth_append)
  finally show ?thesis .
qed

lemma no_overlap:
  assumes p: "prefix p (drop i s)" and q: "prefix q (drop j s)"
    and ij: "i < j" and q_ne: "q \<noteq> []" and hd: "hd q \<notin> set (tl p)"
  shows "i + length p \<le> j"
proof (rule ccontr)
  assume "\<not> i + length p \<le> j"
  then have lt: "j - i < length p" using ij by simp
  have "s ! (i + (j - i)) = p ! (j - i)" using p lt by (rule prefix_drop_nth)
  then have 1: "s ! j = p ! (j - i)" using ij by simp
  have "s ! (j + 0) = q ! 0" using q q_ne by (intro prefix_drop_nth) simp_all
  then have 2: "s ! j = hd q" using q_ne by (simp add: hd_conv_nth)
  obtain k where k: "j - i = Suc k" using ij by (cases "j - i") simp_all
  have "p ! (j - i) = tl p ! k" using lt k by (cases p) simp_all
  moreover have "k < length (tl p)" using lt k by simp
  ultimately have "p ! (j - i) \<in> set (tl p)" by (metis nth_mem)
  with 1 2 hd show False by simp
qed

lemma replaceAllLiteral_deleteOccurrences:
  assumes ne: "pat \<noteq> []" and hd: "hd pat \<notin> set (tl pat)"
  shows "replaceAllLiteral pat [] s = deleteOccurrences pat s"
proof (induction "length s" arbitrary: s rule: less_induct)
  case less
  let ?n = "length pat"
  let ?A = "\<lambda>t. {j. \<not> inOccurrence pat t j}"
  show ?case
  proof (cases s)
    case Nil
    then show ?thesis using ne by (simp add: deleteOccurrences_def)
  next
    case (Cons x xs)
    show ?thesis
    proof (cases "prefix pat s")
      case False
      have ih: "replaceAllLiteral pat [] xs = nths xs (?A xs)"
        using less [of xs] Cons by (simp add: deleteOccurrences_nths)
      have zero: "\<not> inOccurrence pat s 0" using False by (simp add: inOccurrence_def)
      have shift: "inOccurrence pat s (Suc j) = inOccurrence pat xs j" for j
      proof
        assume "inOccurrence pat s (Suc j)"
        then obtain i where i: "i \<le> Suc j" "Suc j < i + ?n" "prefix pat (drop i s)"
          by (auto simp: inOccurrence_def)
        with False obtain i' where "i = Suc i'" by (cases i) auto
        with i Cons show "inOccurrence pat xs j" by (auto simp: inOccurrence_def)
      next
        assume "inOccurrence pat xs j"
        then obtain i where i: "i \<le> j" "j < i + ?n" "prefix pat (drop i xs)"
          by (auto simp: inOccurrence_def)
        then have "Suc i \<le> Suc j \<and> Suc j < Suc i + ?n \<and> prefix pat (drop (Suc i) s)"
          using Cons by simp
        then show "inOccurrence pat s (Suc j)" unfolding inOccurrence_def by blast
      qed
      have "nths s (?A s) = x # nths xs (?A xs)"
        using zero by (simp add: Cons nths_Cons shift [unfolded Cons])
      moreover have "replaceAllLiteral pat [] s = x # replaceAllLiteral pat [] xs"
        using False ne Cons by simp
      ultimately show ?thesis by (simp add: ih deleteOccurrences_nths)
    next
      case True
      then obtain rest where rest: "s = pat @ rest" by (auto simp: prefix_def)
      have len: "length rest < length s" using ne by (simp add: rest)
      have ih: "replaceAllLiteral pat [] rest = nths rest (?A rest)"
        using less [OF len] by (simp add: deleteOccurrences_nths)
      have p0: "prefix pat (drop 0 s)" using True by simp
      have front: "nths pat (?A s) = []"
      proof (rule nths_none)
        fix j assume "j < length pat"
        then have "inOccurrence pat s j" using True unfolding inOccurrence_def
          by (intro bexI [of _ 0]) simp_all
        then show "j \<notin> ?A s" by simp
      qed
      have shift: "inOccurrence pat s (j + ?n) = inOccurrence pat rest j" for j
      proof
        assume "inOccurrence pat s (j + ?n)"
        then obtain i where i: "i \<le> j + ?n" "j + ?n < i + ?n" "prefix pat (drop i s)"
          by (auto simp: inOccurrence_def)
        then have pos: "0 < i" by simp
        have "0 + ?n \<le> i" using p0 i(3) pos ne hd by (rule no_overlap)
        then obtain i' where i': "i = i' + ?n" by (metis add.commute add_0 le_Suc_ex)
        then have "drop i s = drop i' rest" by (simp add: rest)
        with i i' have "i' \<le> j \<and> j < i' + ?n \<and> prefix pat (drop i' rest)" by simp
        then show "inOccurrence pat rest j" unfolding inOccurrence_def by blast
      next
        assume "inOccurrence pat rest j"
        then obtain i where i: "i \<le> j" "j < i + ?n" "prefix pat (drop i rest)"
          by (auto simp: inOccurrence_def)
        have "drop (i + ?n) s = drop i rest" by (simp add: rest)
        with i have "i + ?n \<le> j + ?n \<and> j + ?n < (i + ?n) + ?n \<and> prefix pat (drop (i + ?n) s)"
          by simp
        then show "inOccurrence pat s (j + ?n)" unfolding inOccurrence_def by blast
      qed
      have "nths s (?A s) = nths pat (?A s) @ nths rest {j. j + ?n \<in> ?A s}"
        by (subst rest) (simp add: nths_append)
      also have "\<dots> = nths rest (?A rest)" by (simp add: front shift)
      finally have spec: "nths s (?A s) = nths rest (?A rest)" .
      have "replaceAllLiteral pat [] s = replaceAllLiteral pat [] (drop ?n s)"
        using True ne Cons by simp
      also have "drop ?n s = rest" by (simp add: rest)
      finally show ?thesis by (simp add: ih spec deleteOccurrences_nths)
    qed
  qed
qed

lemma tag_unbordered:
  "DISCUSSION_COMPLETE_TAG \<noteq> [] \<and> hd DISCUSSION_COMPLETE_TAG \<notin> set (tl DISCUSSION_COMPLETE_TAG)"
  by (simp add: DISCUSSION_COMPLETE_TAG_def ascii_def)


lemma lastIndexOf_ge: "- 1 \<le> js_lastIndexOf s p"
  by (induction s) (auto simp: Let_def)

lemma lastIndexOf_occurs:
  "js_lastIndexOf s p \<noteq> - 1 \<Longrightarrow> prefix p (drop (nat (js_lastIndexOf s p)) s)"
proof (induction s)
  case Nil
  then show ?case by (simp split: if_splits)
next
  case (Cons x xs)
  show ?case
  proof (cases "js_lastIndexOf xs p = - 1")
    case True
    with Cons.prems show ?thesis by (simp split: if_splits)
  next
    case False
    then have "0 \<le> js_lastIndexOf xs p" using lastIndexOf_ge [of xs p] by linarith
    then have "nat (js_lastIndexOf xs p + 1) = Suc (nat (js_lastIndexOf xs p))" by simp
    with False Cons.IH show ?thesis by (simp add: Let_def)
  qed
qed


lemma prefix_drop_length:
  "prefix p (drop i s) \<Longrightarrow> p \<noteq> [] \<Longrightarrow> i + length p \<le> length s"
proof -
  assume a: "prefix p (drop i s)" "p \<noteq> []"
  then obtain r where "drop i s = p @ r" by (auto simp: prefix_def)
  then have "length (drop i s) = length p + length r" by simp
  with a(2) show ?thesis by (cases "i < length s") simp_all
qed

lemma substring_take_drop:
  "a \<le> b \<Longrightarrow> b \<le> length s \<Longrightarrow> js_substring s (int a) (int b) = take (b - a) (drop a s)"
  by (simp add: js_substring_def Let_def min_def max_def nat_diff_distrib')

text \<open>The shape of a response that carries a notepad block, by the indices the code computes.\<close>

lemma block_indices:
  assumes si: "js_lastIndexOf cur NOTEPAD_UPDATE_TAG_START \<noteq> - 1"
    and lt: "js_lastIndexOf cur NOTEPAD_UPDATE_TAG_START < js_lastIndexOf cur NOTEPAD_UPDATE_TAG_END"
  shows "nat (js_lastIndexOf cur NOTEPAD_UPDATE_TAG_START) + length NOTEPAD_UPDATE_TAG_START
           \<le> nat (js_lastIndexOf cur NOTEPAD_UPDATE_TAG_END)
         \<and> nat (js_lastIndexOf cur NOTEPAD_UPDATE_TAG_END) \<le> length cur
         \<and> 0 \<le> js_lastIndexOf cur NOTEPAD_UPDATE_TAG_START"
proof -
  let ?si = "js_lastIndexOf cur NOTEPAD_UPDATE_TAG_START"
  let ?ei = "js_lastIndexOf cur NOTEPAD_UPDATE_TAG_END"
  have s0: "0 \<le> ?si" using si lastIndexOf_ge [of cur NOTEPAD_UPDATE_TAG_START] by linarith
  then have e0: "0 \<le> ?ei" "?ei \<noteq> - 1" using lt by linarith+
  have ps: "prefix NOTEPAD_UPDATE_TAG_START (drop (nat ?si) cur)"
    using si by (rule lastIndexOf_occurs)
  have pe: "prefix NOTEPAD_UPDATE_TAG_END (drop (nat ?ei) cur)"
    using e0(2) by (rule lastIndexOf_occurs)
  have lt': "nat ?si < nat ?ei" using s0 lt by simp
  have "nat ?si + length NOTEPAD_UPDATE_TAG_START \<le> nat ?ei"
    by (rule no_overlap [OF ps pe lt'])
      (simp_all add: NOTEPAD_UPDATE_TAG_START_def NOTEPAD_UPDATE_TAG_END_def ascii_def)
  moreover have "nat ?ei + length NOTEPAD_UPDATE_TAG_END \<le> length cur"
    using pe by (rule prefix_drop_length) (simp add: NOTEPAD_UPDATE_TAG_END_def ascii_def)
  ultimately show ?thesis using s0 by simp
qed


lemma splitNotepadBlock_block:
  assumes si: "js_lastIndexOf cur NOTEPAD_UPDATE_TAG_START \<noteq> - 1"
    and lt: "js_lastIndexOf cur NOTEPAD_UPDATE_TAG_START < js_lastIndexOf cur NOTEPAD_UPDATE_TAG_END"
    and sf: "suffix NOTEPAD_UPDATE_TAG_END cur"
  shows "splitNotepadBlock cur = (js_trim (textBeforeBlock cur), Some (js_trim (textInsideBlock cur)))"
proof -
  let ?si = "js_lastIndexOf cur NOTEPAD_UPDATE_TAG_START"
  let ?ei = "js_lastIndexOf cur NOTEPAD_UPDATE_TAG_END"
  let ?n = "length NOTEPAD_UPDATE_TAG_START"
  from block_indices [OF si lt]
  have ord: "nat ?si + ?n \<le> nat ?ei" "nat ?ei \<le> length cur" "0 \<le> ?si" by simp_all
  then have e0: "0 \<le> ?ei" using lt by linarith
  have valid: "hasNotepadBlock cur"
    using si lt sf e0 by (auto simp: hasNotepadBlock_def Let_def js_endsWith_def)
  have "js_substring cur (int 0) (int (nat ?si)) = take (nat ?si - 0) (drop 0 cur)"
    using ord by (intro substring_take_drop) simp_all
  then have before: "js_substring cur 0 ?si = textBeforeBlock cur"
    using ord(3) by (simp add: textBeforeBlock_def)
  have "js_substring cur (int (nat ?si + ?n)) (int (nat ?ei))
      = take (nat ?ei - (nat ?si + ?n)) (drop (nat ?si + ?n) cur)"
    using ord by (intro substring_take_drop) simp_all
  moreover have "int (nat ?si + ?n) = ?si + int ?n" using ord(3) by simp
  moreover have "int (nat ?ei) = ?ei" using e0 by simp
  ultimately have inside: "js_substring cur (?si + int ?n) ?ei = textInsideBlock cur"
    by (simp add: textInsideBlock_def Let_def)
  show ?thesis using valid by (simp add: splitNotepadBlock_def Let_def before inside)
qed


lemma trim_sublist: "sublist (js_trim s) s"
proof -
  let ?d = "dropWhile isWhiteSpace s"
  let ?e = "dropWhile isWhiteSpace (rev ?d)"
  have "suffix ?e (rev ?d)" by (rule suffix_dropWhile)
  then have "prefix (rev ?e) ?d" by (simp add: suffix_to_prefix)
  then have "sublist (rev ?e) ?d" by (rule prefix_imp_sublist)
  moreover have "sublist ?d s" using suffix_dropWhile by (rule suffix_imp_sublist)
  ultimately have "sublist (rev ?e) s" by (rule sublist_order.order_trans)
  then show ?thesis by (simp add: js_trim_def)
qed

lemma dropWhile_keeps:
  assumes "p \<noteq> []" "\<not> P (hd p)"
  shows "\<exists>a'. dropWhile P (a @ p @ b) = a' @ p @ b"
proof (induction a)
  case Nil
  have "dropWhile P (p @ b) = p @ b" using assms by (cases p) simp_all
  then show ?case by (intro exI [of _ "[]"]) simp
next
  case (Cons x a)
  then show ?case by (cases "P x") (auto intro: exI [of _ "x # a"])
qed

lemma trim_keeps_sublist:
  assumes sub: "sublist p s" and ne: "p \<noteq> []"
    and h: "\<not> isWhiteSpace (hd p)" and l: "\<not> isWhiteSpace (last p)"
  shows "sublist p (js_trim s)"
proof -
  from sub obtain a b where s: "s = a @ p @ b" by (auto simp: sublist_def)
  from dropWhile_keeps [of p isWhiteSpace a b, OF ne h] obtain a' where
    1: "dropWhile isWhiteSpace s = a' @ p @ b" unfolding s by blast
  have rp: "rev p \<noteq> []" "\<not> isWhiteSpace (hd (rev p))" using ne l by (simp_all add: hd_rev)
  from dropWhile_keeps [of "rev p" isWhiteSpace "rev b" "rev a'", OF rp] obtain b' where
    2: "dropWhile isWhiteSpace (rev b @ rev p @ rev a') = b' @ rev p @ rev a'" by blast
  have "js_trim s = a' @ p @ rev b'" by (simp add: js_trim_def 1 2)
  then show ?thesis by (auto simp: sublist_def)
qed

lemma tag_ends:
  "\<not> isWhiteSpace (hd DISCUSSION_COMPLETE_TAG) \<and> \<not> isWhiteSpace (last DISCUSSION_COMPLETE_TAG)"
  by (simp add: DISCUSSION_COMPLETE_TAG_def ascii_def isWhiteSpace_def)

lemma parse_unfold:
  "parseAIResponse raw =
     (let sp = fst (splitNotepadBlock (js_trim raw));
          np = snd (splitNotepadBlock (js_trim raw));
          e = sublist DISCUSSION_COMPLETE_TAG sp;
          sp2 = (if e then js_trim (deleteOccurrences DISCUSSION_COMPLETE_TAG sp) else sp)
      in \<lparr> spokenText = js_trim (placeholderText sp2 np e),
           newNotepadContent = np, discussionShouldEnd = e \<rparr>)"
  using tag_unbordered
  by (simp add: parseAIResponse_def Let_def case_prod_beta js_includes_def
      removeCompletionTag_eq replaceAllLiteral_deleteOccurrences)

lemma placeholder_nonempty:
  "js_trim sp \<noteq> [] \<Longrightarrow> placeholderText sp np e = sp"
  by (simp add: placeholderText_def Let_def)

lemma wordings:
  "js_trim (ascii ''(AI '' @ notepadActionWording @ andWording @ discussionActionWording @ ascii '')'')
     = ascii ''(AI '' @ notepadActionWording @ andWording @ discussionActionWording @ ascii '')''"
  "js_trim (ascii ''(AI '' @ discussionActionWording @ ascii '')'')
     = ascii ''(AI '' @ discussionActionWording @ ascii '')''"
  "notepadActionWording \<noteq> []" "discussionActionWording \<noteq> []"
  by (simp_all add: js_trim_def ascii_def isWhiteSpace_def notepadActionWording_def
      andWording_def discussionActionWording_def)

text \<open>
  Claim C8. For every raw response, the end signal is true exactly when the completion
  marker occurs somewhere (at any position) in the spoken text extracted by the notepad
  step. The regular expression built from the escaped marker matches the marker as a
  literal. When the marker occurs, every code unit of the extracted text that belongs to
  an occurrence of the marker is removed; the returned spoken text is the trimmed rest, or,
  when nothing but white space is left, the placeholder naming the action or actions.
\<close>

theorem completion_marker_anywhere:
  fixes raw :: jsstring
  defines "sp \<equiv> fst (splitNotepadBlock (js_trim raw))"
  defines "r \<equiv> js_trim (deleteOccurrences DISCUSSION_COMPLETE_TAG sp)"
  shows "discussionShouldEnd (parseAIResponse raw) = sublist DISCUSSION_COMPLETE_TAG sp
    \<and> regexLiteral (escapeRegExp DISCUSSION_COMPLETE_TAG) = Some DISCUSSION_COMPLETE_TAG
    \<and> (sublist DISCUSSION_COMPLETE_TAG sp \<longrightarrow>
         spokenText (parseAIResponse raw) =
           (if r \<noteq> [] then r
            else if newNotepadContent (parseAIResponse raw) \<notin> {None, Some []}
            then ascii ''(AI '' @ notepadActionWording @ andWording @ discussionActionWording @ ascii '')''
            else ascii ''(AI '' @ discussionActionWording @ ascii '')''))"
proof (intro conjI impI)
  show "discussionShouldEnd (parseAIResponse raw) = sublist DISCUSSION_COMPLETE_TAG sp"
    by (simp add: parse_unfold Let_def sp_def)
  show "regexLiteral (escapeRegExp DISCUSSION_COMPLETE_TAG) = Some DISCUSSION_COMPLETE_TAG"
    by (rule regexLiteral_escapeRegExp)
  assume occ: "sublist DISCUSSION_COMPLETE_TAG sp"
  let ?np = "snd (splitNotepadBlock (js_trim raw))"
  have sp: "spokenText (parseAIResponse raw) = js_trim (placeholderText r ?np True)"
    and np: "newNotepadContent (parseAIResponse raw) = ?np"
    using occ by (simp_all add: parse_unfold Let_def sp_def r_def)
  show "spokenText (parseAIResponse raw) =
           (if r \<noteq> [] then r
            else if newNotepadContent (parseAIResponse raw) \<notin> {None, Some []}
            then ascii ''(AI '' @ notepadActionWording @ andWording @ discussionActionWording @ ascii '')''
            else ascii ''(AI '' @ discussionActionWording @ ascii '')'')"
  proof (cases "r = []")
    case False
    have "js_trim r = r" by (simp add: r_def trim_idem)
    with False show ?thesis by (simp add: sp placeholder_nonempty)
  next
    case True
    have "js_trim [] = []" by (simp add: js_trim_def)
    then show ?thesis using True
      by (cases ?np) (simp_all add: sp np placeholderText_def Let_def wordings)
  qed
qed





text \<open>
  Claim C4 (the spoken text is never empty) does not hold of the code: for a response that
  is only an empty notepad block, no placeholder is synthesized. The notepad content is the
  empty string, which names no action for the first placeholder and is not null for the
  second.
\<close>

theorem blank_turn_on_empty_notepad_block:
  "parseAIResponse (ascii ''<notepad_update></notepad_update>'')
     = \<lparr> spokenText = [], newNotepadContent = Some [], discussionShouldEnd = False \<rparr>"
  by code_simp

text \<open>
  Claim C10. For every raw response that ends in a valid notepad block, the end signal is
  decided by the trimmed text before the block alone, so it is false when the marker does
  not occur before the block; the notepad update is the trimmed inner text, from which
  nothing is removed: a marker inside the block is still in the notepad update.
\<close>

theorem marker_inside_notepad_block:
  fixes raw :: jsstring
  defines "cur \<equiv> js_trim raw"
  assumes si: "js_lastIndexOf cur NOTEPAD_UPDATE_TAG_START \<noteq> - 1"
    and lt: "js_lastIndexOf cur NOTEPAD_UPDATE_TAG_START < js_lastIndexOf cur NOTEPAD_UPDATE_TAG_END"
    and sf: "suffix NOTEPAD_UPDATE_TAG_END cur"
  shows "discussionShouldEnd (parseAIResponse raw)
           = sublist DISCUSSION_COMPLETE_TAG (js_trim (textBeforeBlock cur))
    \<and> (\<not> sublist DISCUSSION_COMPLETE_TAG (textBeforeBlock cur) \<longrightarrow>
         \<not> discussionShouldEnd (parseAIResponse raw))
    \<and> newNotepadContent (parseAIResponse raw) = Some (js_trim (textInsideBlock cur))
    \<and> (sublist DISCUSSION_COMPLETE_TAG (textInsideBlock cur) \<longrightarrow>
         sublist DISCUSSION_COMPLETE_TAG (js_trim (textInsideBlock cur)))"
proof -
  have split: "splitNotepadBlock (js_trim raw)
      = (js_trim (textBeforeBlock cur), Some (js_trim (textInsideBlock cur)))"
    using si lt sf unfolding cur_def by (rule splitNotepadBlock_block)
  have e: "discussionShouldEnd (parseAIResponse raw)
           = sublist DISCUSSION_COMPLETE_TAG (js_trim (textBeforeBlock cur))"
    by (simp add: parse_unfold Let_def split)
  have "sublist DISCUSSION_COMPLETE_TAG (textBeforeBlock cur)"
    if "sublist DISCUSSION_COMPLETE_TAG (js_trim (textBeforeBlock cur))"
    using that trim_sublist by (rule sublist_order.order_trans)
  moreover have "newNotepadContent (parseAIResponse raw) = Some (js_trim (textInsideBlock cur))"
    by (simp add: parse_unfold Let_def split)
  moreover have "sublist DISCUSSION_COMPLETE_TAG (js_trim (textInsideBlock cur))"
    if "sublist DISCUSSION_COMPLETE_TAG (textInsideBlock cur)"
    using that tag_unbordered tag_ends by (intro trim_keeps_sublist) simp_all
  ultimately show ?thesis using e by blast
qed

text \<open>Claim C10 at a response whose only marker is the whole content of the block.\<close>

theorem marker_inside_notepad_block_witness:
  "\<not> discussionShouldEnd (parseAIResponse
      (ascii ''a <notepad_update> x <discussion_complete /> </notepad_update>  ''))
   \<and> newNotepadContent (parseAIResponse
      (ascii ''a <notepad_update> x <discussion_complete /> </notepad_update>  ''))
     = Some (ascii ''x <discussion_complete />'')
   \<and> sublist DISCUSSION_COMPLETE_TAG (ascii ''x <discussion_complete />'')"
proof -
  let ?raw = "ascii ''a <notepad_update> x <discussion_complete /> </notepad_update>  ''"
  have 1: "js_lastIndexOf (js_trim ?raw) NOTEPAD_UPDATE_TAG_START \<noteq> - 1" by code_simp
  have 2: "js_lastIndexOf (js_trim ?raw) NOTEPAD_UPDATE_TAG_START
      < js_lastIndexOf (js_trim ?raw) NOTEPAD_UPDATE_TAG_END" by code_simp
  have 3: "suffix NOTEPAD_UPDATE_TAG_END (js_trim ?raw)" by code_simp
  have 4: "js_trim (textInsideBlock (js_trim ?raw)) = ascii ''x <discussion_complete />''"
    by code_simp
  have 5: "\<not> sublist DISCUSSION_COMPLETE_TAG (textBeforeBlock (js_trim ?raw))" by code_simp
  have 6: "sublist DISCUSSION_COMPLETE_TAG (textInsideBlock (js_trim ?raw))" by code_simp
  show ?thesis using marker_inside_notepad_block [OF 1 2 3] 5 6 unfolding 4 by blast
qed

text \<open>Claim C8 at a response with two markers in the middle and at the end of the text.\<close>

theorem completion_marker_anywhere_witness:
  "discussionShouldEnd (parseAIResponse (ascii '' a <discussion_complete /> b <discussion_complete />''))
   \<and> spokenText (parseAIResponse (ascii '' a <discussion_complete /> b <discussion_complete />''))
       = ascii ''a  b''"
proof -
  let ?raw = "ascii '' a <discussion_complete /> b <discussion_complete />''"
  have 1: "sublist DISCUSSION_COMPLETE_TAG (fst (splitNotepadBlock (js_trim ?raw)))"
    by code_simp
  have 2: "js_trim (deleteOccurrences DISCUSSION_COMPLETE_TAG (fst (splitNotepadBlock (js_trim ?raw))))
      = ascii ''a  b''" by code_simp
  have 3: "ascii ''a  b'' \<noteq> []" by code_simp
  show ?thesis using completion_marker_anywhere [of ?raw] 1 3 unfolding 2 by simp
qed

section \<open>Properties of the orchestrator\<close>

declare attemptLoop.simps [simp del]
declare discussionLoop.simps [simp del]


lemma attemptLoop_auth:
  assumes "\<not> cancelRequest s" "attempt \<le> MAX_AUTO_RETRIES" "\<not> stopDuringCall e"
    "resultError (apiResult e) = Some err" "js_includes err API_KEY_NOT_VALID"
  shows "attemptLoop resumedFlow p attempt (e # rest) s =
     (Threw (resultText (apiResult e)),
      notify (ErrorNotice (resultText (apiResult e)))
        ((issueCall p s)\<lparr> cancelRequest := False, isApiKeyMissing := True \<rparr>))"
  using assms by (subst attemptLoop.simps) (simp add: Let_def)

lemma attemptLoop_retry:
  assumes "\<not> cancelRequest s" "attempt < MAX_AUTO_RETRIES" "\<not> stopDuringCall e"
    "resultError (apiResult e) = Some err" "\<not> js_includes err API_KEY_NOT_VALID"
  shows "attemptLoop resumedFlow p attempt (e # rest) s =
     attemptLoop resumedFlow p (attempt + 1) rest
       ((notify (CallFailedRetrying resumedFlow (stepIdentifier p) (attempt + 1)
                   (resultText (apiResult e)))
           ((issueCall p s)\<lparr> cancelRequest := False \<rparr>))\<lparr> cancelRequest := stopDuringDelay e \<rparr>)"
  using assms by (subst attemptLoop.simps) (simp add: Let_def)

lemma attemptLoop_last:
  assumes "\<not> cancelRequest s" "attempt = MAX_AUTO_RETRIES" "\<not> stopDuringCall e"
    "resultError (apiResult e) = Some err" "\<not> js_includes err API_KEY_NOT_VALID"
  shows "attemptLoop resumedFlow p attempt (e # rest) s =
     (Exhausted,
      (snd (addMessage (Note (CallFailedFinal resumedFlow (stepIdentifier p) (resultText (apiResult e))))
              System SystemNotification None ((issueCall p s)\<lparr> cancelRequest := False \<rparr>)))
        \<lparr> failedStepInfo := Some (p\<lparr> originalSystemErrorMsgId := nextMessageId s \<rparr>) \<rparr>)"
  using assms
  by (subst attemptLoop.simps) (simp add: Let_def addMessage_def issueCall_def)


lemmas state_defs = notify_def addMessage_def issueCall_def applyNotepad_def


lemma discussionLoop_head:
  "headGuard f lp turn v s \<Longrightarrow> discussionLoop f lp turn v script s = (LoopBreak, v, script, s)"
  by (subst discussionLoop.simps) (auto simp: headGuard_def)

lemma discussionLoop_muse_exit:
  "\<not> headGuard f lp turn v s \<Longrightarrow> museTurn f lp turn v script s = (Some e, v1, script1, s1) \<Longrightarrow>
     discussionLoop f lp turn v script s = (e, v1, script1, s1)"
  by (subst discussionLoop.simps) (auto simp: headGuard_def)

lemma discussionLoop_mid:
  "\<not> headGuard f lp turn v s \<Longrightarrow> museTurn f lp turn v script s = (None, v1, script1, s1) \<Longrightarrow>
     midGuard f lp turn v1 s1 \<Longrightarrow>
     discussionLoop f lp turn v script s = (LoopBreak, v1, script1, s1)"
  by (subst discussionLoop.simps) (auto simp: headGuard_def midGuard_def)

lemma discussionLoop_cognito_exit:
  "\<not> headGuard f lp turn v s \<Longrightarrow> museTurn f lp turn v script s = (None, v1, script1, s1) \<Longrightarrow>
     \<not> midGuard f lp turn v1 s1 \<Longrightarrow>
     cognitoReplyTurn f lp turn v1 script1 s1 = (Some e, v2, script2, s2) \<Longrightarrow>
     discussionLoop f lp turn v script s = (e, v2, script2, s2)"
  by (subst discussionLoop.simps) (auto simp: headGuard_def midGuard_def)

lemma discussionLoop_next:
  "\<not> headGuard f lp turn v s \<Longrightarrow> museTurn f lp turn v script s = (None, v1, script1, s1) \<Longrightarrow>
     \<not> midGuard f lp turn v1 s1 \<Longrightarrow>
     cognitoReplyTurn f lp turn v1 script1 s1 = (None, v2, script2, s2) \<Longrightarrow>
     discussionLoop f lp turn v script s = discussionLoop f lp (turn + 1) v2 script2 s2"
  by (subst discussionLoop.simps) (auto simp: headGuard_def midGuard_def)

text \<open>The induction that follows the loop: one case, with the hypothesis for the next turn.\<close>

lemma discussionLoop_induct:
  assumes step: "\<And>turn v script s.
      (\<And>v1 script1 s1 v2 script2 s2.
          \<not> headGuard f lp turn v s \<Longrightarrow>
          museTurn f lp turn v script s = (None, v1, script1, s1) \<Longrightarrow>
          \<not> midGuard f lp turn v1 s1 \<Longrightarrow>
          cognitoReplyTurn f lp turn v1 script1 s1 = (None, v2, script2, s2) \<Longrightarrow>
          P (turn + 1) v2 script2 s2)
      \<Longrightarrow> P turn v script s"
  shows "P turn v script s"
proof -
  have "\<forall>turn v s. P turn v script s"
  proof (induction script rule: length_induct)
    case (1 xs)
    show ?case
    proof (intro allI)
      fix turn v s
      show "P turn v xs s"
      proof (rule step)
        fix v1 script1 s1 v2 script2 s2
        assume "\<not> headGuard f lp turn v s"
          and m: "museTurn f lp turn v xs s = (None, v1, script1, s1)"
          and "\<not> midGuard f lp turn v1 s1"
          and c: "cognitoReplyTurn f lp turn v1 script1 s1 = (None, v2, script2, s2)"
        have "length script2 < length xs"
          using museTurn_script [OF m] cognitoReplyTurn_script [OF c] by simp
        with 1 show "P (turn + 1) v2 script2 s2" by blast
      qed
    qed
  qed
  then show ?thesis by blast
qed

text \<open>The five ways through one iteration.\<close>

lemma discussionLoop_cases:
  obtains
    (head) "headGuard f lp turn v s"
      "discussionLoop f lp turn v script s = (LoopBreak, v, script, s)"
  | (muse_exit) e v1 script1 s1 where "\<not> headGuard f lp turn v s"
      "museTurn f lp turn v script s = (Some e, v1, script1, s1)"
      "discussionLoop f lp turn v script s = (e, v1, script1, s1)"
  | (mid) v1 script1 s1 where "\<not> headGuard f lp turn v s"
      "museTurn f lp turn v script s = (None, v1, script1, s1)"
      "midGuard f lp turn v1 s1"
      "discussionLoop f lp turn v script s = (LoopBreak, v1, script1, s1)"
  | (cognito_exit) e v1 script1 s1 v2 script2 s2 where "\<not> headGuard f lp turn v s"
      "museTurn f lp turn v script s = (None, v1, script1, s1)"
      "\<not> midGuard f lp turn v1 s1"
      "cognitoReplyTurn f lp turn v1 script1 s1 = (Some e, v2, script2, s2)"
      "discussionLoop f lp turn v script s = (e, v2, script2, s2)"
  | (next_turn) v1 script1 s1 v2 script2 s2 where "\<not> headGuard f lp turn v s"
      "museTurn f lp turn v script s = (None, v1, script1, s1)"
      "\<not> midGuard f lp turn v1 s1"
      "cognitoReplyTurn f lp turn v1 script1 s1 = (None, v2, script2, s2)"
      "discussionLoop f lp turn v script s = discussionLoop f lp (turn + 1) v2 script2 s2"
proof (cases "headGuard f lp turn v s")
  case True
  then show ?thesis using head discussionLoop_head by blast
next
  case h: False
  obtain x v1 script1 s1 where m: "museTurn f lp turn v script s = (x, v1, script1, s1)"
    by (metis prod_cases4)
  show ?thesis
  proof (cases x)
    case (Some e)
    then show ?thesis using h m muse_exit discussionLoop_muse_exit by blast
  next
    case None
    note m = m [unfolded None]
    show ?thesis
    proof (cases "midGuard f lp turn v1 s1")
      case True
      then show ?thesis using h m mid discussionLoop_mid by blast
    next
      case g: False
      obtain y v2 script2 s2 where
        c: "cognitoReplyTurn f lp turn v1 script1 s1 = (y, v2, script2, s2)"
        by (metis prod_cases4)
      show ?thesis
      proof (cases y)
        case (Some e)
        then show ?thesis using h m g c cognito_exit discussionLoop_cognito_exit by blast
      next
        case None
        then show ?thesis using h m g c next_turn discussionLoop_next by blast
      qed
    qed
  qed
qed

























lemma attemptLoop_trace:
  "attemptLoop resumedFlow p attempt envs s = (res, s') \<Longrightarrow>
     discussionLog s' = discussionLog s
     \<and> (\<exists>k. stepsCalled s' = stepsCalled s @ replicate k (stepIdentifier p)
            \<and> (\<not> cancelRequest s \<and> attempt \<le> MAX_AUTO_RETRIES \<longrightarrow> 1 \<le> k)
            \<and> ((\<exists>x. res = Succeeded x) \<longrightarrow> 1 \<le> k))"
proof (induction envs arbitrary: attempt s)
  case Nil
  then show ?case
    by (subst (asm) attemptLoop.simps)
      (auto simp: stepsCalled_def state_defs split: if_splits intro: exI [of _ 0] exI [of _ 1])
next
  case (Cons e rest)
  show ?case
  proof (cases "attempt \<le> MAX_AUTO_RETRIES \<and> \<not> cancelRequest s")
    case False
    with Cons.prems show ?thesis
      by (subst (asm) attemptLoop.simps) (auto split: if_splits intro: exI [of _ 0])
  next
    case True
    note ok = this
    let ?s1 = "(issueCall p s)\<lparr> cancelRequest := stopDuringCall e \<rparr>"
    have one: "stepsCalled ?s1 = stepsCalled s @ replicate 1 (stepIdentifier p)"
      by (simp add: stepsCalled_def state_defs)
    show ?thesis
    proof (cases "stopDuringCall e")
      case True
      with Cons.prems ok one show ?thesis
        by (subst (asm) attemptLoop.simps)
          (auto simp: Let_def state_defs stepsCalled_def intro!: exI [of _ 1])
    next
      case nostop: False
      show ?thesis
      proof (cases "resultError (apiResult e)")
        case None
        with Cons.prems ok nostop show ?thesis
          by (subst (asm) attemptLoop.simps)
            (auto simp: Let_def state_defs stepsCalled_def intro!: exI [of _ 1])
      next
        case (Some err)
        show ?thesis
        proof (cases "\<not> js_includes err API_KEY_NOT_VALID \<and> attempt < MAX_AUTO_RETRIES")
          case False
          show ?thesis
          proof (cases "js_includes err API_KEY_NOT_VALID")
            case True
            with Cons.prems ok nostop Some show ?thesis
              by (auto simp: attemptLoop_auth [of s attempt e err] state_defs stepsCalled_def
                  intro!: exI [of _ 1])
          next
            case plain: False
            with False have last: "attempt = MAX_AUTO_RETRIES" using ok by simp
            have c: "\<not> cancelRequest s" using ok by simp
            note attemptLoop_last [OF c last nostop Some plain, of resumedFlow p rest]
            with Cons.prems show ?thesis
              by (auto simp: state_defs stepsCalled_def intro!: exI [of _ 1])
          qed
        next
          case True
          let ?s2 = "(notify (CallFailedRetrying resumedFlow (stepIdentifier p) (attempt + 1)
                   (resultText (apiResult e)))
              ((issueCall p s)\<lparr> cancelRequest := False \<rparr>))\<lparr> cancelRequest := stopDuringDelay e \<rparr>"
          have eq: "attemptLoop resumedFlow p (attempt + 1) rest ?s2 = (res, s')"
            using Cons.prems ok nostop Some True
            by (simp add: attemptLoop_retry [of s attempt e err])
          from Cons.IH [OF eq] obtain k where
            k: "discussionLog s' = discussionLog ?s2"
            "stepsCalled s' = stepsCalled ?s2 @ replicate k (stepIdentifier p)"
            by blast
          have "stepsCalled ?s2 = stepsCalled s @ replicate 1 (stepIdentifier p)"
            by (simp add: stepsCalled_def state_defs)
          with k have "stepsCalled s' = stepsCalled s @ replicate (Suc k) (stepIdentifier p)"
            by (simp add: replicate_app_Cons_same)
          moreover have "discussionLog s' = discussionLog s" using k(1) by (simp add: state_defs)
          ultimately show ?thesis by (intro conjI exI [of _ "Suc k"]) simp_all
        qed
      qed
    qed
  qed
qed

lemma replyTurn_trace:
  assumes lg: "discussionLog s = currentDiscussionLog v"
    and eq: "replyTurn f lp sid who partner v script s = (x, v', script', s')"
  shows "discussionLog s' = currentDiscussionLog v'
     \<and> prefix (currentDiscussionLog v) (currentDiscussionLog v')
     \<and> (\<exists>k. stepsCalled s' = stepsCalled s @ replicate k sid
            \<and> (\<not> cancelRequest s \<longrightarrow> 1 \<le> k) \<and> (x = None \<longrightarrow> 1 \<le> k))"
proof -
  let ?s1 = "notify (Preparing sid) s"
  obtain r s2 where a: "attemptLoop (resumed lp) (failedStepPayload f sid v) 0 (nextEnv script) ?s1
      = (r, s2)" by fastforce
  from attemptLoop_trace [OF a] obtain k where
    k: "discussionLog s2 = discussionLog s"
      "stepsCalled s2 = stepsCalled s @ replicate k sid"
      "\<not> cancelRequest s \<longrightarrow> 1 \<le> k" "(\<exists>x. r = Succeeded x) \<longrightarrow> 1 \<le> k"
    by (auto simp: state_defs stepsCalled_def failedStepPayload_def)
  have "discussionLog s' = currentDiscussionLog v'
     \<and> prefix (currentDiscussionLog v) (currentDiscussionLog v')
     \<and> stepsCalled s' = stepsCalled s2 \<and> (x = None \<longrightarrow> (\<exists>y. r = Succeeded y))"
    using eq a lg k(1)
    by (auto simp: replyTurn_def Let_def state_defs stepsCalled_def
        split: StepResult.splits if_splits option.splits)
  with k show ?thesis by auto
qed

lemma discussionLoop_trace:
  assumes noskip: "\<not> skipMuseInFirstIteration lp"
  shows "discussionLog s = currentDiscussionLog v \<Longrightarrow>
     discussionLoop f lp turn v script s = (exit, v', script', s') \<Longrightarrow>
     discussionLog s' = currentDiscussionLog v'
     \<and> prefix (currentDiscussionLog v) (currentDiscussionLog v')
     \<and> (\<exists>new. stepsCalled s' = stepsCalled s @ new
            \<and> (\<forall>sid \<in> set new. inTurnsFrom turn sid)
            \<and> (if headGuard f lp turn v s then new = []
                else new \<noteq> [] \<and> hd new = MuseReply turn))"
proof (induction turn v script s rule: discussionLoop_induct [of f lp])
  case (1 turn v script s)
  note lg = 1(2) and eq = 1(3)
  have mt: "museTurn f lp turn v script s = replyTurn f lp (MuseReply turn) Muse Cognito v script s"
    using noskip by (simp add: museTurn_def)
  show ?case
  proof (cases rule: discussionLoop_cases [of f lp turn v s script])
    case head
    with lg eq show ?thesis by simp
  next
    case (muse_exit e v1 script1 s1)
    have c: "\<not> cancelRequest s" using muse_exit(1) by (simp add: headGuard_def)
    from replyTurn_trace [OF lg muse_exit(2) [unfolded mt]] c obtain k where
      "discussionLog s1 = currentDiscussionLog v1"
      "prefix (currentDiscussionLog v) (currentDiscussionLog v1)"
      "stepsCalled s1 = stepsCalled s @ replicate k (MuseReply turn)" "1 \<le> k"
      by blast
    then show ?thesis using eq muse_exit(1,3)
      by (intro conjI exI [of _ "replicate k (MuseReply turn)"])
        (auto simp: inTurnsFrom_def hd_replicate)
  next
    case (mid v1 script1 s1)
    have c: "\<not> cancelRequest s" using mid(1) by (simp add: headGuard_def)
    from replyTurn_trace [OF lg mid(2) [unfolded mt]] c obtain k where
      "discussionLog s1 = currentDiscussionLog v1"
      "prefix (currentDiscussionLog v) (currentDiscussionLog v1)"
      "stepsCalled s1 = stepsCalled s @ replicate k (MuseReply turn)" "1 \<le> k"
      by blast
    then show ?thesis using eq mid(1,4)
      by (intro conjI exI [of _ "replicate k (MuseReply turn)"])
        (auto simp: inTurnsFrom_def hd_replicate)
  next
    case (cognito_exit e v1 script1 s1 v2 script2 s2)
    have c: "\<not> cancelRequest s" using cognito_exit(1) by (simp add: headGuard_def)
    from replyTurn_trace [OF lg cognito_exit(2) [unfolded mt]] c obtain k where
      k: "discussionLog s1 = currentDiscussionLog v1"
      "prefix (currentDiscussionLog v) (currentDiscussionLog v1)"
      "stepsCalled s1 = stepsCalled s @ replicate k (MuseReply turn)" "1 \<le> k"
      by blast
    from replyTurn_trace [OF k(1) cognito_exit(4) [unfolded cognitoReplyTurn_def]] obtain j where
      j: "discussionLog s2 = currentDiscussionLog v2"
      "prefix (currentDiscussionLog v1) (currentDiscussionLog v2)"
      "stepsCalled s2 = stepsCalled s1 @ replicate j (CognitoReply turn)"
      by blast
    have p: "prefix (currentDiscussionLog v) (currentDiscussionLog v2)"
      using k(2) j(2) by (rule prefix_order.order_trans)
    show ?thesis using eq cognito_exit(1,5) k j p
      by (intro conjI exI [of _ "replicate k (MuseReply turn) @ replicate j (CognitoReply turn)"])
        (auto simp: inTurnsFrom_def hd_append hd_replicate)
  next
    case (next_turn v1 script1 s1 v2 script2 s2)
    have c: "\<not> cancelRequest s" using next_turn(1) by (simp add: headGuard_def)
    from replyTurn_trace [OF lg next_turn(2) [unfolded mt]] c obtain k where
      k: "discussionLog s1 = currentDiscussionLog v1"
      "prefix (currentDiscussionLog v) (currentDiscussionLog v1)"
      "stepsCalled s1 = stepsCalled s @ replicate k (MuseReply turn)" "1 \<le> k"
      by blast
    from replyTurn_trace [OF k(1) next_turn(4) [unfolded cognitoReplyTurn_def]] obtain j where
      j: "discussionLog s2 = currentDiscussionLog v2"
      "prefix (currentDiscussionLog v1) (currentDiscussionLog v2)"
      "stepsCalled s2 = stepsCalled s1 @ replicate j (CognitoReply turn)"
      by blast
    have eq': "discussionLoop f lp (turn + 1) v2 script2 s2 = (exit, v', script', s')"
      using eq next_turn(5) by simp
    from 1(1) [OF next_turn(1-4) j(1) eq'] obtain new where
      new: "discussionLog s' = currentDiscussionLog v'"
      "prefix (currentDiscussionLog v2) (currentDiscussionLog v')"
      "stepsCalled s' = stepsCalled s2 @ new" "\<forall>sid \<in> set new. inTurnsFrom (turn + 1) sid"
      by blast
    have p: "prefix (currentDiscussionLog v) (currentDiscussionLog v')"
      using k(2) j(2) new(2) by (meson prefix_order.order_trans)
    have later: "inTurnsFrom turn sid" if "inTurnsFrom (turn + 1) sid" for sid
      using that by (auto simp: inTurnsFrom_def split: StepId.splits)
    show ?thesis using next_turn(1) k j new p later
      by (intro conjI
          exI [of _ "replicate k (MuseReply turn) @ replicate j (CognitoReply turn) @ new"])
        (auto simp: inTurnsFrom_def hd_append hd_replicate)
  qed
qed

lemma afterStep_trace:
  "afterStep wording s0 resumedFlow r s = (run, s') \<Longrightarrow>
     stepsCalled s' = stepsCalled s \<and> discussionLog s' = discussionLog s"
  by (auto simp: afterStep_def finallyBlock_def stoppedReturn_def catchBlock_def Let_def
      stepsCalled_def state_defs split: StepResult.splits if_splits)

lemma finalAnswer_trace:
  assumes "finalAnswer f resumedFlow v script s = (r, s')"
  shows "discussionLog s' = discussionLog s
     \<and> (\<exists>k. stepsCalled s' = stepsCalled s @ replicate k FinalAnswer)"
proof -
  let ?s1 = "notify (Preparing FinalAnswer) s"
  obtain r0 s2 where a: "attemptLoop resumedFlow (failedStepPayload f FinalAnswer v) 0
      (nextEnv script) ?s1 = (r0, s2)" by fastforce
  from attemptLoop_trace [OF a] obtain k where
    "discussionLog s2 = discussionLog s" "stepsCalled s2 = stepsCalled s @ replicate k FinalAnswer"
    by (auto simp: state_defs stepsCalled_def failedStepPayload_def)
  moreover have "discussionLog s' = discussionLog s2 \<and> stepsCalled s' = stepsCalled s2"
    using assms a
    by (auto simp: finalAnswer_def Let_def state_defs stepsCalled_def
        split: StepResult.splits option.splits)
  ultimately show ?thesis by auto
qed

lemma afterLoop_trace:
  assumes "afterLoop wording s0 f resumedFlow exit v script s = (run, s')"
  shows "discussionLog s' = discussionLog s
     \<and> (\<exists>k. stepsCalled s' = stepsCalled s @ replicate k FinalAnswer)"
proof (cases "exit = LoopBreak \<and> \<not> cancelRequest s")
  case True
  obtain r s1 where fa: "finalAnswer f resumedFlow v script s = (r, s1)" by fastforce
  have "afterStep wording s0 resumedFlow r s1 = (run, s')"
    using assms True fa by (simp add: afterLoop_def)
  from afterStep_trace [OF this] finalAnswer_trace [OF fa] show ?thesis by auto
next
  case False
  then have "\<exists>r. afterStep wording s0 resumedFlow r s = (run, s') \<or> (run, s') = (Suspended, s)"
    using assms by (auto simp: afterLoop_def split: LoopExit.splits if_splits)
  then show ?thesis using afterStep_trace [of wording s0 resumedFlow _ s run s']
    by (auto intro: exI [of _ 0])
qed

lemma continue_after_cognito_reply:
  fixes retriedStepPayload :: FailedStepPayload and retryResponse :: ParsedAIResponse
    and s0 :: AppState
  defines "agreed \<equiv> discussionMode s0 = AiDriven \<and> discussionShouldEnd retryResponse
      \<and> previousAISignaledStopForResume retriedStepPayload = Some True"
  assumes sid: "stepIdentifier retriedStepPayload = CognitoReply k0"
    and idx: "currentTurnIndexForResume retriedStepPayload = Some k"
    and c: "\<not> cancelRequest s"
    and eq: "continueDiscussionAfterSuccessfulRetry wording s0 retriedStepPayload retryResponse
        script s = (run, s')"
  shows "prefix (discussionLogBeforeFailure retriedStepPayload
            @ [(sender retriedStepPayload, spokenText retryResponse)]) (discussionLog s')
     \<and> (\<exists>new. stepsCalled s' = stepsCalled s @ new
            \<and> (\<forall>sid \<in> set new. afterTurn k sid)
            \<and> (new = [] \<or> hd new = MuseReply (k + 1) \<or> hd new = FinalAnswer)
            \<and> (\<not> agreed \<and> \<not> (discussionMode s0 = FixedTurns \<and> manualFixedTurns s0 \<le> int (k + 1))
                 \<longrightarrow> new \<noteq> [] \<and> hd new = MuseReply (k + 1)))"
proof -
  define f where "f = \<lparr> flowUserInput = userInputForFlow retriedStepPayload,
                flowImage = imageApiPartForFlow retriedStepPayload,
                flowModel = selectedModelApiName s0, flowThinking = activeThinkingConfig s0,
                flowMode = discussionMode s0, flowFixedTurns = manualFixedTurns s0,
                flowNotepad = notepadContent s0 \<rparr>"
  define lg where "lg = discussionLogBeforeFailure retriedStepPayload
            @ [(sender retriedStepPayload, spokenText retryResponse)]"
  define prev where "prev = (discussionMode s0 = AiDriven \<and> discussionShouldEnd retryResponse)"
  define v where "v = \<lparr> currentDiscussionLog = lg,
                lastTurnTextForLog = spokenText retryResponse,
                previousAISignaledStop = prev \<rparr>"
  define s2 where "s2 = (if agreed then notify (BothAgreed Muse Cognito) (s\<lparr> discussionLog := lg \<rparr>)
      else if prev then notify (SuggestsEnd Cognito) (s\<lparr> discussionLog := lg \<rparr>)
      else s\<lparr> discussionLog := lg \<rparr>)"
  define lp where "lp = \<lparr> resumed = True,
      storedSignal = (previousAISignaledStopForResume retriedStepPayload = Some True),
      initialLoopTurn = k + 1, skipMuseInFirstIteration = False \<rparr>"
  have s2: "discussionLog s2 = lg" "stepsCalled s2 = stepsCalled s" "\<not> cancelRequest s2"
    using c by (auto simp: s2_def state_defs stepsCalled_def)
  have later: "afterTurn k x" if "inTurnsFrom (k + 1) x" for x
    using that by (auto simp: afterTurn_def inTurnsFrom_def split: StepId.splits)
  have fin: "\<forall>x \<in> set (replicate j FinalAnswer). afterTurn k x" for j
    by (simp add: afterTurn_def)
  show ?thesis
  proof (cases agreed)
    case True
    have "afterLoop wording s0 f True LoopBreak v script s2 = (run, s')"
      using eq sid idx True unfolding f_def lg_def prev_def v_def s2_def agreed_def
      by (simp add: continueDiscussionAfterSuccessfulRetry_def Let_def cong: if_cong)
    from afterLoop_trace [OF this] obtain j where
      "discussionLog s' = lg" "stepsCalled s' = stepsCalled s @ replicate j FinalAnswer"
      using s2 by auto
    then show ?thesis using True fin [of j] unfolding lg_def [symmetric]
      by (intro conjI exI [of _ "replicate j FinalAnswer"]) (auto simp: hd_replicate)
  next
    case False
    obtain exit v2 script2 s3 where
      l: "discussionLoop f lp (k + 1) v script s2 = (exit, v2, script2, s3)"
      by (metis prod_cases4)
    have s2': "s2 = (if prev then notify (SuggestsEnd Cognito) (s\<lparr> discussionLog := lg \<rparr>)
        else s\<lparr> discussionLog := lg \<rparr>)"
      using False by (simp add: s2_def)
    have na: "(discussionMode s0 = AiDriven \<and> discussionShouldEnd retryResponse
        \<and> previousAISignaledStopForResume retriedStepPayload = Some True) = False"
      using False by (simp add: agreed_def)
    have al: "afterLoop wording s0 f True exit v2 script2 s3 = (run, s')"
      using eq sid idx l unfolding f_def lg_def prev_def v_def s2' lp_def
      by (simp add: continueDiscussionAfterSuccessfulRetry_def Let_def na cong: if_cong)
    have noskip: "\<not> skipMuseInFirstIteration lp" by (simp add: lp_def)
    have lgv: "discussionLog s2 = currentDiscussionLog v" using s2 by (simp add: v_def)
    from discussionLoop_trace [OF noskip lgv l] obtain new where
      new: "discussionLog s3 = currentDiscussionLog v2"
      "prefix (currentDiscussionLog v) (currentDiscussionLog v2)"
      "stepsCalled s3 = stepsCalled s2 @ new" "\<forall>sid \<in> set new. inTurnsFrom (k + 1) sid"
      "if headGuard f lp (k + 1) v s2 then new = [] else new \<noteq> [] \<and> hd new = MuseReply (k + 1)"
      by blast
    from afterLoop_trace [OF al] obtain j where
      j: "discussionLog s' = discussionLog s3" "stepsCalled s' = stepsCalled s3 @ replicate j FinalAnswer"
      by blast
    have hg: "headGuard f lp (k + 1) v s2
        = (discussionMode s0 = FixedTurns \<and> manualFixedTurns s0 \<le> int (k + 1))"
      using s2(3) by (simp add: headGuard_def f_def lp_def)
    have "prefix lg (discussionLog s')" using new(1,2) j(1) by (simp add: v_def)
    moreover have "stepsCalled s' = stepsCalled s @ (new @ replicate j FinalAnswer)"
      using j(2) new(3) s2(2) by simp
    moreover have "\<forall>sid \<in> set (new @ replicate j FinalAnswer). afterTurn k sid"
      using new(4) later fin [of j] by auto
    moreover have "new @ replicate j FinalAnswer = [] \<or> hd (new @ replicate j FinalAnswer) = MuseReply (k + 1)
        \<or> hd (new @ replicate j FinalAnswer) = FinalAnswer"
      using new(5) by (cases "new = []") (auto simp: hd_append hd_replicate split: if_splits)
    moreover have "new @ replicate j FinalAnswer \<noteq> [] \<and> hd (new @ replicate j FinalAnswer) = MuseReply (k + 1)"
      if "\<not> (discussionMode s0 = FixedTurns \<and> manualFixedTurns s0 \<le> int (k + 1))"
      using new(5) that hg by (auto simp: hd_append)
    ultimately show ?thesis unfolding lg_def [symmetric]
      by (intro conjI exI [of _ "new @ replicate j FinalAnswer"]) blast+
  qed
qed

text \<open>
  Claim C7. After a checkpoint of Cognito's reply in turn \<open>k\<close>, a manual retry whose call
  succeeds appends the retried response to the stored log, and every call made after the
  retried one is for a turn after \<open>k\<close> or for the final answer: neither half of turn \<open>k\<close> is
  run again. The first of these calls, if there is one, is Muse's reply of turn \<open>k + 1\<close> or
  the final answer, and it is Muse's reply of turn \<open>k + 1\<close> unless both personas have agreed
  to end or the fixed number of turns is used up.
\<close>

theorem resume_after_cognito_reply:
  fixes wording :: "MessageText \<Rightarrow> jsstring" and stepToRetry :: FailedStepPayload
    and script :: "StepEnv list" and s0 :: AppState and e :: AttemptEnv
  defines "M \<equiv> handleManualRetry wording stepToRetry script s0"
  defines "retried \<equiv> parseAIResponse (resultText (apiResult e))"
  assumes idle: "\<not> isLoading s0"
    and sid: "stepIdentifier stepToRetry = CognitoReply k"
    and idx: "currentTurnIndexForResume stepToRetry = Some k"
    and env: "nextEnv script = e # others"
    and ok: "\<not> stopDuringCall e" "resultError (apiResult e) = None"
  shows "prefix (discussionLogBeforeFailure stepToRetry @ [(sender stepToRetry, spokenText retried)])
           (discussionLog (snd M))
     \<and> (\<exists>new. stepsCalled (snd M) = stepsCalled s0 @ CognitoReply k # new
            \<and> (\<forall>sid \<in> set new. afterTurn k sid)
            \<and> (new = [] \<or> hd new = MuseReply (k + 1) \<or> hd new = FinalAnswer)
            \<and> (\<not> (discussionMode s0 = AiDriven \<and> discussionShouldEnd retried
                    \<and> previousAISignaledStopForResume stepToRetry = Some True)
                \<and> \<not> (discussionMode s0 = FixedTurns \<and> manualFixedTurns s0 \<le> int (k + 1))
                 \<longrightarrow> new \<noteq> [] \<and> hd new = MuseReply (k + 1)))"
proof -
  define s9 where "s9 = (notify (ManualRetrySucceeded (sender stepToRetry) (stepIdentifier stepToRetry))
      (applyNotepad retried (sender stepToRetry)
        (snd (addMessage (Spoken (spokenText retried)) (sender stepToRetry) (purpose stepToRetry)
               (Some (resultDurationMs (apiResult e)))
               ((issueCall stepToRetry
                   (notify (ManualRetrying (sender stepToRetry) (stepIdentifier stepToRetry))
                      (s0\<lparr> isLoading := True, cancelRequest := False,
                           messages := filter (\<lambda>m. msgId m \<noteq> originalSystemErrorMsgId stepToRetry)
                                         (messages s0) \<rparr>)))
                  \<lparr> cancelRequest := stopDuringCall e \<rparr>)))))\<lparr> failedStepInfo := None \<rparr>"
  obtain run s10 where
    co: "continueDiscussionAfterSuccessfulRetry wording s0 stepToRetry retried (tl script) s9
        = (run, s10)" by fastforce
  have s9: "\<not> cancelRequest s9" "stepsCalled s9 = stepsCalled s0 @ [CognitoReply k]"
    using ok sid by (simp_all add: s9_def state_defs stepsCalled_def split: option.splits)
  have M: "snd M = s10 \<or> snd M = snd (manualFinally s0 s10)"
    using idle env ok co unfolding M_def s9_def retried_def
    by (cases run) (simp_all add: handleManualRetry_def Let_def)
  have same: "discussionLog (snd M) = discussionLog s10 \<and> stepsCalled (snd M) = stepsCalled s10"
    using M by (auto simp: manualFinally_def Let_def state_defs stepsCalled_def)
  from continue_after_cognito_reply [OF sid idx s9(1) co] obtain new where
    "prefix (discussionLogBeforeFailure stepToRetry @ [(sender stepToRetry, spokenText retried)])
       (discussionLog s10)"
    "stepsCalled s10 = stepsCalled s9 @ new" "\<forall>sid \<in> set new. afterTurn k sid"
    "new = [] \<or> hd new = MuseReply (k + 1) \<or> hd new = FinalAnswer"
    "\<not> (discussionMode s0 = AiDriven \<and> discussionShouldEnd retried
          \<and> previousAISignaledStopForResume stepToRetry = Some True)
      \<and> \<not> (discussionMode s0 = FixedTurns \<and> manualFixedTurns s0 \<le> int (k + 1))
      \<longrightarrow> new \<noteq> [] \<and> hd new = MuseReply (k + 1)"
    by blast
  then show ?thesis using same s9(2)
    by (intro conjI exI [of _ new]) simp_all
qed





text \<open>Claim C7 at a successful manual retry of Cognito's reply of turn 0.\<close>

theorem resume_after_cognito_reply_witness:
  "\<exists>new. stepsCalled (snd (handleManualRetry noWording
        (failedStepPayload (exampleFlow AiDriven 2) (CognitoReply 0) exampleLocals)
        [answers (ascii ''C''), answers (ascii ''D'')] (failedCognitoReply AiDriven 2 0)))
      = CognitoReply 0 # new \<and> new \<noteq> [] \<and> hd new = MuseReply 1"
proof -
  let ?p = "failedStepPayload (exampleFlow AiDriven 2) (CognitoReply 0) exampleLocals"
  let ?e = "\<lparr> apiResult = \<lparr> resultText = ascii ''C'', resultError = None, resultDurationMs = 0 \<rparr>,
        stopDuringCall = False, stopDuringDelay = False \<rparr>"
  let ?s0 = "failedCognitoReply AiDriven 2 0"
  have h: "\<not> isLoading ?s0" "stepIdentifier ?p = CognitoReply 0"
    "currentTurnIndexForResume ?p = Some 0"
    "nextEnv [answers (ascii ''C''), answers (ascii ''D'')] = ?e # []"
    "\<not> stopDuringCall ?e" "resultError (apiResult ?e) = None"
    by (simp_all add: failedCognitoReply_def initialState_def nextEnv_def answers_def
        failedStepPayload_def)
  have m: "previousAISignaledStopForResume ?p = Some False" "discussionMode ?s0 = AiDriven"
    "stepsCalled ?s0 = []"
    by (simp_all add: failedCognitoReply_def initialState_def failedStepPayload_def
        exampleLocals_def stepsCalled_def)
  from resume_after_cognito_reply [OF h, of noWording] m
  show ?thesis by auto
qed

text \<open>
  Claim C1 does not hold of the code. In the AI-driven mode the opening response proposes
  to end, Muse does not, and Cognito's reply proposes to end again: no two neighbouring
  signals are both true, yet the loop is left before Muse's next turn and the final answer is
  asked for. The guard at the head of the loop takes the stored signal of the opening
  response for Muse's agreement.
\<close>

theorem lone_signal_halts_loop:
  "observed (handleSendMessage noWording (ascii ''q'') None
       [answers (ascii ''A <discussion_complete />''), answers (ascii ''B''),
        answers (ascii ''C <discussion_complete />''), answers (ascii ''F''), answers (ascii ''G'')]
       (initialState AiDriven 2))
     = (Returned, [CognitoInitial, MuseReply 0, CognitoReply 0, FinalAnswer])
   \<and> map (\<lambda>t. discussionShouldEnd (parseAIResponse t))
       [ascii ''A <discussion_complete />'', ascii ''B'', ascii ''C <discussion_complete />'']
     = [True, False, True]
   \<and> \<not> adjacentAgreement [True, False, True]"
  by code_simp

end
